theory Spec2Isabelle
  imports Main "HOL-Library.Sublist"
begin

section \<open>Strings as Python uses them\<close>

text \<open>
  File names and paths are Python \<open>str\<close> values. They are modelled as \<open>string\<close>, a list
  of 8-bit characters read as the code points U+0000 to U+00FF. In that range the only
  characters matched by the regular expression class \<open>\d\<close> are \<open>0\<close> to \<open>9\<close>, and
  \<open>str.lower\<close> maps \<open>A\<close>-\<open>Z\<close> and the accented capitals U+00C0 to U+00DE (the
  multiplication sign U+00D7 apart) to the character 32 places later.
\<close>

definition is_digit :: "char \<Rightarrow> bool" where
  "is_digit c = (c \<in> set ''0123456789'')"

definition uppercase :: string where
  "uppercase = ''ABCDEFGHIJKLMNOPQRSTUVWXYZ'' @
     [CHR 0xC0, CHR 0xC1, CHR 0xC2, CHR 0xC3, CHR 0xC4, CHR 0xC5, CHR 0xC6, CHR 0xC7,
      CHR 0xC8, CHR 0xC9, CHR 0xCA, CHR 0xCB, CHR 0xCC, CHR 0xCD, CHR 0xCE, CHR 0xCF,
      CHR 0xD0, CHR 0xD1, CHR 0xD2, CHR 0xD3, CHR 0xD4, CHR 0xD5, CHR 0xD6,
      CHR 0xD8, CHR 0xD9, CHR 0xDA, CHR 0xDB, CHR 0xDC, CHR 0xDD, CHR 0xDE]"

definition lowercase :: string where
  "lowercase = ''abcdefghijklmnopqrstuvwxyz'' @
     [CHR 0xE0, CHR 0xE1, CHR 0xE2, CHR 0xE3, CHR 0xE4, CHR 0xE5, CHR 0xE6, CHR 0xE7,
      CHR 0xE8, CHR 0xE9, CHR 0xEA, CHR 0xEB, CHR 0xEC, CHR 0xED, CHR 0xEE, CHR 0xEF,
      CHR 0xF0, CHR 0xF1, CHR 0xF2, CHR 0xF3, CHR 0xF4, CHR 0xF5, CHR 0xF6,
      CHR 0xF8, CHR 0xF9, CHR 0xFA, CHR 0xFB, CHR 0xFC, CHR 0xFD, CHR 0xFE]"

definition lower_char :: "char \<Rightarrow> char" where
  "lower_char c = (case map_of (zip uppercase lowercase) c of None \<Rightarrow> c | Some l \<Rightarrow> l)"

text \<open>\<open>s.lower()\<close>\<close>

definition lower :: "string \<Rightarrow> string" where
  "lower s = map lower_char s"

text \<open>\<open>sub in s\<close>: \<open>sub\<close> occurs in \<open>s\<close> as a contiguous substring.\<close>

fun str_in :: "string \<Rightarrow> string \<Rightarrow> bool" where
  "str_in sub [] = (sub = [])"
| "str_in sub (c # cs) = (prefix sub (c # cs) \<or> str_in sub cs)"

text \<open>\<open>s.startswith(p)\<close>\<close>

definition startswith :: "string \<Rightarrow> string \<Rightarrow> bool" where
  "startswith s p = prefix p s"

text \<open>\<open>s.rfind(c)\<close> for a single character: the highest index of \<open>c\<close> in \<open>s\<close>, or \<open>-1\<close>.\<close>

definition rfind :: "string \<Rightarrow> char \<Rightarrow> int" where
  "rfind s c =
     (if c \<in> set s
      then int (length s) - 1 - int (length (takeWhile (\<lambda>x. x \<noteq> c) (rev s)))
      else - 1)"

text \<open>
  \<open>os.path.splitext\<close> of the standard library (the POSIX flavour, separator \<open>/\<close>): the
  name is split at its last dot, unless that dot comes before the last separator or only
  dots stand between the last separator and it; then the extension is empty. The library's
  loop over the indices from \<open>sepIndex + 1\<close> up to \<open>dotIndex\<close>, which returns the split at
  the first character that is not a dot, is the test \<open>list_ex\<close> on that slice.
\<close>

definition splitext :: "string \<Rightarrow> string \<times> string" where
  "splitext p =
     (let sepIndex = rfind p CHR ''/'';
          dotIndex = rfind p CHR ''.''
      in if dotIndex > sepIndex \<and>
            list_ex (\<lambda>x. x \<noteq> CHR ''.'')
              (take (nat (dotIndex - (sepIndex + 1))) (drop (nat (sepIndex + 1)) p))
         then (take (nat dotIndex) p, drop (nat dotIndex) p)
         else (p, []))"

text \<open>
  \<open>re.search(r'20\d{2}', filename)\<close> followed by \<open>group(0)\<close>: the scan tries each start
  position from the left and returns the four characters of the first position where
  \<open>20\<close> and two digits stand.
\<close>

fun re_search_year :: "string \<Rightarrow> string option" where
  "re_search_year (a # b # c # d # rest) =
     (if a = CHR ''2'' \<and> b = CHR ''0'' \<and> is_digit c \<and> is_digit d then Some [a, b, c, d]
      else re_search_year (b # c # d # rest))"
| "re_search_year _ = None"


section \<open>Configuration\<close>

text \<open>
  The configuration is the dictionary \<open>yaml.safe_load\<close> returns. The record holds, for
  each key the organizer reads, the value its \<open>.get\<close> yields: \<open>dry_run\<close> (default
  \<open>False\<close>), the \<open>enabled\<close> flag of each rule (default \<open>True\<close>), the lists of
  \<open>skip.folders\<close>, \<open>skip.files\<close>, \<open>extensions\<close> and \<open>patterns\<close> (default empty).
  Two keys keep their optional form because their defaults are spelled out in the code:
  \<open>folders\<close> is the dictionary itself, looked up with a default name per category, and
  \<open>year_pattern\<close> is \<open>None\<close> when absent (the default \<open>20\d{2}\<close> is then searched). A
  configured pattern is represented by its search function, the text
  \<open>re.search(pattern, filename).group(0)\<close> of the leftmost match or \<open>None\<close>. The sections
  \<open>rules.photos\<close>, \<open>rules.documents\<close> and \<open>rules.temp\<close> are taken to be present.
\<close>

record config =
  dry_run :: bool
  folders :: "string \<rightharpoonup> string"
  photos_enabled :: bool
  photos_year_pattern :: "(string \<Rightarrow> string option) option"
  documents_enabled :: bool
  documents_extensions :: "string list"
  temp_enabled :: bool
  temp_patterns :: "string list"
  skip_folders :: "string list"
  skip_files :: "string list"

text \<open>What reading the configuration file gives: one of the two handled errors, or a dictionary.\<close>

datatype config_file = FileNotFoundError | YAMLError | Parsed config

text \<open>\<open>_load_config\<close>: both errors print a message and call \<open>sys.exit(1)\<close>.\<close>

definition load_config :: "config_file \<Rightarrow> int + config" where
  "load_config f = (case f of FileNotFoundError \<Rightarrow> Inl 1 | YAMLError \<Rightarrow> Inl 1 | Parsed c \<Rightarrow> Inr c)"


section \<open>The organizer's state and the storage backend\<close>

text \<open>
  The calls the organizer makes on its Dropbox client, and what the client answers: a
  result, an \<open>ApiError\<close> whose path error is \<open>not_found\<close>, or any other \<open>ApiError\<close>.
  \<open>ApiError\<close> is the only exception the organizer handles around these calls, and the
  only one modelled. The backend is any function from the calls made so far and the call
  at hand to an answer, so that its hidden state may depend on the whole history.
\<close>

datatype api_call =
    Files_get_metadata string
  | Files_create_folder_v2 string
  | Files_move_v2 string string

datatype api_response = Success | ApiError_path_not_found | ApiError_other

type_synonym backend = "api_call list \<Rightarrow> api_call \<Rightarrow> api_response"

text \<open>The records handed to the logger, one constructor per message of the source.\<close>

datatype log_record =
    Would_ensure_folder string
  | Folder_already_exists string
  | Created_folder string
  | Error_creating_folder string
  | Error_checking_folder string
  | Would_move string string
  | Moved string string
  | Error_moving_file string string
  | Skipping string
  | Starting_scan string
  | Running_in_dry_run_mode
  | Error_scanning

text \<open>
  The mutable part of the organizer object: the five counters of \<open>self.stats\<close>, the calls
  made on \<open>self.dbx\<close> (oldest first) and the records given to \<open>self.logger\<close>.
\<close>

record organizer =
  photos_moved :: int
  documents_moved :: int
  temp_moved :: int
  errors :: int
  skipped :: int
  calls :: "api_call list"
  log :: "log_record list"

definition init_organizer :: organizer where
  "init_organizer =
     \<lparr>photos_moved = 0, documents_moved = 0, temp_moved = 0, errors = 0, skipped = 0,
      calls = [], log = []\<rparr>"

definition logger :: "log_record \<Rightarrow> organizer \<Rightarrow> organizer" where
  "logger r s = s\<lparr>log := log s @ [r]\<rparr>"

text \<open>One call on the client: the backend answers from the history, and the call is recorded.\<close>

definition dbx :: "backend \<Rightarrow> api_call \<Rightarrow> organizer \<Rightarrow> api_response \<times> organizer" where
  "dbx bk c s = (bk (calls s) c, s\<lparr>calls := calls s @ [c]\<rparr>)"


section \<open>The organizer's methods\<close>

definition ensure_folder_exists :: "config \<Rightarrow> backend \<Rightarrow> string \<Rightarrow> organizer \<Rightarrow> organizer" where
  "ensure_folder_exists cfg bk folder_path s =
     (if dry_run cfg then logger (Would_ensure_folder folder_path) s
      else
        let (r, s1) = dbx bk (Files_get_metadata folder_path) s
        in if r = Success then logger (Folder_already_exists folder_path) s1
           else if r = ApiError_path_not_found then
             let (r2, s2) = dbx bk (Files_create_folder_v2 folder_path) s1
             in if r2 = Success then logger (Created_folder folder_path) s2
                else logger (Error_creating_folder folder_path) s2
           else logger (Error_checking_folder folder_path) s1)"

definition should_skip :: "config \<Rightarrow> string \<Rightarrow> string \<Rightarrow> bool" where
  "should_skip cfg file_path file_name =
     (if list_ex (\<lambda>folder. str_in folder file_path) (skip_folders cfg) then True
      else if list_ex (\<lambda>skip_file. file_name = skip_file \<or> startswith file_name skip_file)
                (skip_files cfg) then True
      else False)"

definition extract_year_from_filename :: "config \<Rightarrow> string \<Rightarrow> string option" where
  "extract_year_from_filename cfg filename =
     (if \<not> photos_enabled cfg then None
      else case photos_year_pattern cfg of
             None \<Rightarrow> re_search_year filename
           | Some re_search \<Rightarrow> re_search filename)"

definition is_document :: "config \<Rightarrow> string \<Rightarrow> bool" where
  "is_document cfg filename =
     (if \<not> documents_enabled cfg then False
      else let file_ext = snd (splitext (lower filename))
           in file_ext \<in> set (documents_extensions cfg))"

definition is_temp_file :: "config \<Rightarrow> string \<Rightarrow> bool" where
  "is_temp_file cfg filename =
     (if \<not> temp_enabled cfg then False
      else list_ex (\<lambda>pattern. str_in pattern filename) (temp_patterns cfg))"

definition move_file ::
  "config \<Rightarrow> backend \<Rightarrow> string \<Rightarrow> string \<Rightarrow> organizer \<Rightarrow> bool \<times> organizer" where
  "move_file cfg bk from_path to_path s =
     (if dry_run cfg then (True, logger (Would_move from_path to_path) s)
      else
        let (r, s1) = dbx bk (Files_move_v2 from_path to_path) s
        in if r = Success then (True, logger (Moved from_path to_path) s1)
           else let s2 = logger (Error_moving_file from_path to_path) s1
                in (False, s2\<lparr>errors := errors s2 + 1\<rparr>))"

text \<open>An entry of a listing; \<open>_organize_file\<close> reads \<open>path_display\<close> and \<open>name\<close> of a file's metadata.\<close>

datatype metadata =
    FileMetadata (name: string) (path_display: string)
  | FolderMetadata (name: string) (path_display: string)

text \<open>\<open>folders.get(category, default)\<close>\<close>

definition folders_get :: "config \<Rightarrow> string \<Rightarrow> string \<Rightarrow> string" where
  "folders_get cfg category dflt = (case folders cfg category of None \<Rightarrow> dflt | Some f \<Rightarrow> f)"

text \<open>
  The three blocks of \<open>_organize_file\<close> after the skip check, each a function of the flag
  \<open>moved\<close> and the state. A year counts when it is neither \<open>None\<close> nor the empty string
  (Python's truth test of \<open>year\<close>).
\<close>

definition organize_photo ::
  "config \<Rightarrow> backend \<Rightarrow> string \<Rightarrow> string \<Rightarrow> bool \<times> organizer \<Rightarrow> bool \<times> organizer" where
  "organize_photo cfg bk file_path file_name ms =
     (let (moved, s) = ms
      in case extract_year_from_filename cfg file_name of
           None \<Rightarrow> (moved, s)
         | Some year \<Rightarrow>
             if year \<noteq> [] \<and> \<not> moved then
               let photos_folder = folders_get cfg ''photos'' ''Photos Archive'';
                   year_folder = ''/'' @ photos_folder @ ''/'' @ year;
                   s1 = ensure_folder_exists cfg bk (''/'' @ photos_folder) s;
                   s2 = ensure_folder_exists cfg bk year_folder s1;
                   new_path = year_folder @ ''/'' @ file_name;
                   (ok, s3) = move_file cfg bk file_path new_path s2
               in if ok then (True, s3\<lparr>photos_moved := photos_moved s3 + 1\<rparr>) else (moved, s3)
             else (moved, s))"

definition organize_document ::
  "config \<Rightarrow> backend \<Rightarrow> string \<Rightarrow> string \<Rightarrow> bool \<times> organizer \<Rightarrow> bool \<times> organizer" where
  "organize_document cfg bk file_path file_name ms =
     (let (moved, s) = ms
      in if \<not> moved \<and> is_document cfg file_name then
           let documents_folder = folders_get cfg ''documents'' ''Documents & Files'';
               dest_folder = ''/'' @ documents_folder;
               s1 = ensure_folder_exists cfg bk dest_folder s;
               new_path = dest_folder @ ''/'' @ file_name;
               (ok, s2) = move_file cfg bk file_path new_path s1
           in if ok then (True, s2\<lparr>documents_moved := documents_moved s2 + 1\<rparr>) else (moved, s2)
         else (moved, s))"

definition organize_temp ::
  "config \<Rightarrow> backend \<Rightarrow> string \<Rightarrow> string \<Rightarrow> bool \<times> organizer \<Rightarrow> bool \<times> organizer" where
  "organize_temp cfg bk file_path file_name ms =
     (let (moved, s) = ms
      in if \<not> moved \<and> is_temp_file cfg file_name then
           let temp_folder = folders_get cfg ''temp'' ''Temp Files'';
               dest_folder = ''/'' @ temp_folder;
               s1 = ensure_folder_exists cfg bk dest_folder s;
               new_path = dest_folder @ ''/'' @ file_name;
               (ok, s2) = move_file cfg bk file_path new_path s1
           in if ok then (True, s2\<lparr>temp_moved := temp_moved s2 + 1\<rparr>) else (moved, s2)
         else (moved, s))"

definition organize_file :: "config \<Rightarrow> backend \<Rightarrow> metadata \<Rightarrow> organizer \<Rightarrow> organizer" where
  "organize_file cfg bk file_metadata s =
     (let file_path = path_display file_metadata;
          file_name = name file_metadata
      in if should_skip cfg file_path file_name
         then (logger (Skipping file_path) s)\<lparr>skipped := skipped s + 1\<rparr>
         else snd (organize_temp cfg bk file_path file_name
                    (organize_document cfg bk file_path file_name
                      (organize_photo cfg bk file_path file_name (False, s)))))"

text \<open>The loop \<open>for entry in result.entries\<close>: only instances of \<open>FileMetadata\<close> are organized.\<close>

fun organize_entries :: "config \<Rightarrow> backend \<Rightarrow> metadata list \<Rightarrow> organizer \<Rightarrow> organizer" where
  "organize_entries cfg bk [] s = s"
| "organize_entries cfg bk (FileMetadata n p # entries) s =
     organize_entries cfg bk entries (organize_file cfg bk (FileMetadata n p) s)"
| "organize_entries cfg bk (FolderMetadata n p # entries) s = organize_entries cfg bk entries s"

text \<open>
  A listing call either raises \<open>ApiError\<close> or returns a page of entries. The pages that
  follow the first are the answers to \<open>files_list_folder_continue\<close>; \<open>has_more\<close> holds
  while that list is not empty. A run ends by returning or by \<open>sys.exit\<close>.
\<close>

datatype list_folder_result = ListFolder_ApiError | ListFolderResult "metadata list"

datatype outcome = Returned | Exit int

fun list_folder_continue ::
  "config \<Rightarrow> backend \<Rightarrow> list_folder_result list \<Rightarrow> organizer \<Rightarrow> outcome \<times> organizer" where
  "list_folder_continue cfg bk [] s = (Returned, s)"
| "list_folder_continue cfg bk (ListFolder_ApiError # pages) s = (Exit 1, logger Error_scanning s)"
| "list_folder_continue cfg bk (ListFolderResult entries # pages) s =
     list_folder_continue cfg bk pages (organize_entries cfg bk entries s)"

definition scan_and_organize ::
  "config \<Rightarrow> backend \<Rightarrow> string \<Rightarrow> list_folder_result \<Rightarrow> list_folder_result list \<Rightarrow>
   organizer \<Rightarrow> outcome \<times> organizer" where
  "scan_and_organize cfg bk path first pages s =
     (let s1 = logger (Starting_scan path) s;
          s2 = (if dry_run cfg then logger Running_in_dry_run_mode s1 else s1)
      in list_folder_continue cfg bk (first # pages) s2)"

text \<open>
  \<open>main\<close>: the organizer is built from the configuration file (the connection to Dropbox
  is taken to succeed), the root is scanned, and the summary is printed from the counters.
\<close>

definition main :: "config_file \<Rightarrow> backend \<Rightarrow> list_folder_result \<Rightarrow> list_folder_result list \<Rightarrow>
    outcome \<times> organizer" where
  "main f bk first pages =
     (case load_config f of
        Inl code \<Rightarrow> (Exit code, init_organizer)
      | Inr cfg \<Rightarrow> scan_and_organize cfg bk [] first pages init_organizer)"


section \<open>Observations used to state the properties\<close>

text \<open>
  Every call of \<open>_move_file\<close> leaves exactly one of three records in the log. A move
  attempt is read off such a record: source, destination, and whether \<open>_move_file\<close>
  returned \<open>True\<close>.
\<close>

fun move_attempt :: "log_record \<Rightarrow> (string \<times> string \<times> bool) option" where
  "move_attempt (Would_move f t) = Some (f, t, True)"
| "move_attempt (Moved f t) = Some (f, t, True)"
| "move_attempt (Error_moving_file f t) = Some (f, t, False)"
| "move_attempt _ = None"

definition move_attempts :: "organizer \<Rightarrow> (string \<times> string \<times> bool) list" where
  "move_attempts s = List.map_filter move_attempt (log s)"

text \<open>The sum printed as \<open>Total files moved\<close>.\<close>

definition total_moved :: "organizer \<Rightarrow> int" where
  "total_moved s = photos_moved s + documents_moved s + temp_moved s"

text \<open>The five counters of \<open>self.stats\<close> as a tuple.\<close>

definition stats :: "organizer \<Rightarrow> int \<times> int \<times> int \<times> int \<times> int" where
  "stats s = (photos_moved s, documents_moved s, temp_moved s, errors s, skipped s)"

text \<open>The destinations \<open>_organize_file\<close> builds for a file name.\<close>

definition photo_path :: "config \<Rightarrow> string \<Rightarrow> string \<Rightarrow> string" where
  "photo_path cfg year file_name =
     ''/'' @ folders_get cfg ''photos'' ''Photos Archive'' @ ''/'' @ year @ ''/'' @ file_name"

definition document_path :: "config \<Rightarrow> string \<Rightarrow> string" where
  "document_path cfg file_name =
     ''/'' @ folders_get cfg ''documents'' ''Documents & Files'' @ ''/'' @ file_name"

definition temp_path :: "config \<Rightarrow> string \<Rightarrow> string" where
  "temp_path cfg file_name = ''/'' @ folders_get cfg ''temp'' ''Temp Files'' @ ''/'' @ file_name"

text \<open>The calls that ask the backend to move a file.\<close>

definition is_move_call :: "api_call \<Rightarrow> bool" where
  "is_move_call c = (case c of Files_move_v2 f t \<Rightarrow> True | _ \<Rightarrow> False)"

text \<open>The photo block runs when the extracted year is neither \<open>None\<close> nor empty.\<close>

definition photo_match :: "config \<Rightarrow> string \<Rightarrow> bool" where
  "photo_match cfg n = (case extract_year_from_filename cfg n of None \<Rightarrow> False | Some y \<Rightarrow> y \<noteq> [])"

text \<open>The extracted year as a string (empty when there is none).\<close>

definition year_of :: "config \<Rightarrow> string \<Rightarrow> string" where
  "year_of cfg n = (case extract_year_from_filename cfg n of None \<Rightarrow> [] | Some y \<Rightarrow> y)"

text \<open>Every call of \<open>_move_file\<close> returns \<open>True\<close>: in a dry run, or when the backend accepts every move.\<close>

definition moves_succeed :: "config \<Rightarrow> backend \<Rightarrow> bool" where
  "moves_succeed cfg bk = (dry_run cfg \<or> (\<forall>h f t. bk h (Files_move_v2 f t) = Success))"

text \<open>The move attempts one call of \<open>_organize_file\<close> makes on a file that is not skipped, given the
  value \<open>f1\<close>, \<open>f2\<close>, \<open>f3\<close> of the flag \<open>moved\<close> after each of the three blocks.\<close>

definition chain :: "config \<Rightarrow> metadata \<Rightarrow> bool \<Rightarrow> bool \<Rightarrow> bool \<Rightarrow> (string \<times> string \<times> bool) list" where
  "chain cfg md f1 f2 f3 =
     (if photo_match cfg (name md)
      then [(path_display md, photo_path cfg (year_of cfg (name md)) (name md), f1)] else []) @
     (if \<not> f1 \<and> is_document cfg (name md)
      then [(path_display md, document_path cfg (name md), f2)] else []) @
     (if \<not> f2 \<and> is_temp_file cfg (name md)
      then [(path_display md, temp_path cfg (name md), f3)] else [])"

text \<open>What the flag \<open>moved\<close> can be after each block: it is never reset, and a block sets it only when its rule matches.\<close>

definition flags_ok :: "config \<Rightarrow> metadata \<Rightarrow> bool \<Rightarrow> bool \<Rightarrow> bool \<Rightarrow> bool" where
  "flags_ok cfg md f1 f2 f3 =
     ((f1 \<longrightarrow> photo_match cfg (name md)) \<and> (f1 \<longrightarrow> f2) \<and> (f2 \<longrightarrow> f3) \<and>
      (f2 \<longrightarrow> f1 \<or> is_document cfg (name md)) \<and> (f3 \<longrightarrow> f2 \<or> is_temp_file cfg (name md)))"


text \<open>
  What \<open>_organize_file\<close> decides for an entry, read off the state before and after the
  call: the entry was counted as skipped, or a first move was attempted (to the given
  destination), or nothing was done.
\<close>

datatype decision = Skip | MoveTo string | NoMatch

definition decision :: "organizer \<Rightarrow> organizer \<Rightarrow> decision" where
  "decision s s' =
     (if skipped s' \<noteq> skipped s then Skip
      else case drop (length (move_attempts s)) (move_attempts s') of
             [] \<Rightarrow> NoMatch
           | a # _ \<Rightarrow> MoveTo (fst (snd a)))"

text \<open>
  The router of the specification, \<open>route(entry, ruleset, folders)\<close>: the rule chain in its
  priority order, written over the predicates and the destinations of the code.
\<close>

definition route :: "config \<Rightarrow> metadata \<Rightarrow> decision" where
  "route cfg md =
     (if should_skip cfg (path_display md) (name md) then Skip
      else if photo_match cfg (name md)
        then MoveTo (photo_path cfg (year_of cfg (name md)) (name md))
      else if is_document cfg (name md) then MoveTo (document_path cfg (name md))
      else if is_temp_file cfg (name md) then MoveTo (temp_path cfg (name md))
      else NoMatch)"


text \<open>
  \<open>_ensure_folder_exists\<close> fails, outside a dry run, when it ends in one of its two
  \<open>except\<close> branches: the metadata call raises an \<open>ApiError\<close> other than not-found, or it
  raises not-found and the call that creates the folder raises an \<open>ApiError\<close>.
\<close>

definition ensure_fails :: "backend \<Rightarrow> string \<Rightarrow> organizer \<Rightarrow> bool" where
  "ensure_fails bk folder_path s =
     (bk (calls s) (Files_get_metadata folder_path) = ApiError_other \<or>
      (bk (calls s) (Files_get_metadata folder_path) = ApiError_path_not_found \<and>
       bk (calls s @ [Files_get_metadata folder_path]) (Files_create_folder_v2 folder_path) \<noteq> Success))"

text \<open>A listing call that returned a page.\<close>

definition is_page :: "list_folder_result \<Rightarrow> bool" where
  "is_page r = (case r of ListFolder_ApiError \<Rightarrow> False | ListFolderResult entries \<Rightarrow> True)"


text \<open>
  A match of the default year pattern \<open>20\d{2}\<close>: four characters, \<open>2\<close>, \<open>0\<close> and two
  digits.
\<close>

definition matches_20dd :: "string \<Rightarrow> bool" where
  "matches_20dd y =
     (length y = 4 \<and> y ! 0 = CHR ''2'' \<and> y ! 1 = CHR ''0'' \<and> is_digit (y ! 2) \<and> is_digit (y ! 3))"

text \<open>
  The extension in the words of the specification: the substring from the last \<open>.\<close> to the
  end of the name, empty when the name has no dot.
\<close>

definition last_dot_suffix :: "string \<Rightarrow> string" where
  "last_dot_suffix s = (if CHR ''.'' \<in> set s then drop (nat (rfind s CHR ''.'')) s else [])"


text \<open>The move attempts made between two states of the organizer.\<close>

definition new_attempts :: "organizer \<Rightarrow> organizer \<Rightarrow> (string \<times> string \<times> bool) list" where
  "new_attempts s s' = drop (length (move_attempts s)) (move_attempts s')"


section \<open>Example inputs\<close>

text \<open>
  The configuration of the repository's unit tests (\<open>test_organizer.py\<close>), with
  \<open>dry_run\<close> off, and a few backends.
\<close>

definition example_config :: config where
  "example_config =
     \<lparr>dry_run = False,
      folders = [''photos'' \<mapsto> ''Photos Archive'', ''documents'' \<mapsto> ''Documents & Files'',
                 ''temp'' \<mapsto> ''Temp Files''],
      photos_enabled = True,
      photos_year_pattern = Some re_search_year,
      documents_enabled = True,
      documents_extensions = [''.pdf'', ''.docx'', ''.txt''],
      temp_enabled = True,
      temp_patterns = [''USER_SCOPED_TEMP'', ''_sync'', ''.tmp''],
      skip_folders = [''Photos Archive'', ''Documents & Files''],
      skip_files = [''.dropbox'']\<rparr>"

text \<open>A backend that accepts every call.\<close>

definition accepting :: backend where
  "accepting h c = Success"

text \<open>A backend that refuses every move into the photo archive and accepts all else.\<close>

definition photos_rejected :: backend where
  "photos_rejected h c =
     (case c of
        Files_move_v2 f t \<Rightarrow> if prefix ''/Photos Archive'' t then ApiError_other else Success
      | _ \<Rightarrow> Success)"


text \<open>A backend that refuses every move and accepts all else.\<close>

definition moves_rejected :: backend where
  "moves_rejected h c = (case c of Files_move_v2 f t \<Rightarrow> ApiError_other | _ \<Rightarrow> Success)"

text \<open>A backend on which no folder can be checked or created, while moves are accepted.\<close>

definition folders_unavailable :: backend where
  "folders_unavailable h c = (case c of Files_move_v2 f t \<Rightarrow> Success | _ \<Rightarrow> ApiError_other)"

text \<open>The example configuration without any entry in \<open>folders\<close>.\<close>

definition no_folders_config :: config where
  "no_folders_config = example_config\<lparr>folders := Map.empty\<rparr>"


text \<open>The configuration of the unit tests as it is, with \<open>dry_run\<close> on.\<close>

definition dry_run_config :: config where
  "dry_run_config = example_config\<lparr>dry_run := True\<rparr>"

text \<open>One page of a root listing: four files and a folder.\<close>

definition example_listing :: "metadata list" where
  "example_listing =
     [FileMetadata ''vacation_2023_beach.jpg'' ''/vacation_2023_beach.jpg'',
      FolderMetadata ''Photos Archive'' ''/Photos Archive'',
      FileMetadata ''report.pdf'' ''/report.pdf'',
      FileMetadata ''.dropbox'' ''/.dropbox'',
      FileMetadata ''random_file.dat'' ''/random_file.dat'']"


text \<open>The example configuration without a \<open>year_pattern\<close>, so that the default is used.\<close>

definition default_pattern_config :: config where
  "default_pattern_config = example_config\<lparr>photos_year_pattern := None\<rparr>"

text \<open>The same with the photo rule switched off.\<close>

definition photos_disabled_config :: config where
  "photos_disabled_config = default_pattern_config\<lparr>photos_enabled := False\<rparr>"


text \<open>
  A backend whose answer depends on its history: it refuses a move into the photo archive
  the first time the call is made and accepts the same call afterwards.
\<close>

definition photos_rejected_once :: backend where
  "photos_rejected_once h c =
     (case c of
        Files_move_v2 f t \<Rightarrow>
          if prefix ''/Photos Archive'' t \<and> Files_move_v2 f t \<notin> set h then ApiError_other
          else Success
      | _ \<Rightarrow> Success)"


section \<open>Effects of the methods on the state\<close>

lemma logger_fields:
  "photos_moved (logger r s) = photos_moved s"
  "documents_moved (logger r s) = documents_moved s"
  "temp_moved (logger r s) = temp_moved s"
  "errors (logger r s) = errors s"
  "skipped (logger r s) = skipped s"
  "calls (logger r s) = calls s"
  "log (logger r s) = log s @ [r]"
  by (simp_all add: logger_def)

lemma move_attempts_logger:
  "move_attempts (logger r s) =
     move_attempts s @ (case move_attempt r of None \<Rightarrow> [] | Some a \<Rightarrow> [a])"
  by (cases "move_attempt r") (auto simp: move_attempts_def logger_def List.map_filter_def)

lemma move_attempts_update:
  "move_attempts (s\<lparr>calls := c\<rparr>) = move_attempts s"
  "move_attempts (s\<lparr>errors := e\<rparr>) = move_attempts s"
  "move_attempts (s\<lparr>skipped := k\<rparr>) = move_attempts s"
  "move_attempts (s\<lparr>photos_moved := p\<rparr>) = move_attempts s"
  "move_attempts (s\<lparr>documents_moved := d\<rparr>) = move_attempts s"
  "move_attempts (s\<lparr>temp_moved := t\<rparr>) = move_attempts s"
  by (simp_all add: move_attempts_def)

lemma ensure_folder_exists_stats:
  "photos_moved (ensure_folder_exists cfg bk p s) = photos_moved s"
  "documents_moved (ensure_folder_exists cfg bk p s) = documents_moved s"
  "temp_moved (ensure_folder_exists cfg bk p s) = temp_moved s"
  "errors (ensure_folder_exists cfg bk p s) = errors s"
  "skipped (ensure_folder_exists cfg bk p s) = skipped s"
  by (simp_all add: ensure_folder_exists_def dbx_def logger_def Let_def)

lemma ensure_folder_exists_move_attempts:
  "move_attempts (ensure_folder_exists cfg bk p s) = move_attempts s"
  by (simp add: ensure_folder_exists_def dbx_def Let_def move_attempts_logger move_attempts_update)

lemma ensure_folder_exists_dry_run:
  "dry_run cfg \<Longrightarrow> calls (ensure_folder_exists cfg bk p s) = calls s"
  by (simp add: ensure_folder_exists_def logger_fields)

lemma ensure_folder_exists_move_calls:
  "filter is_move_call (calls (ensure_folder_exists cfg bk p s)) = filter is_move_call (calls s)"
  by (simp add: ensure_folder_exists_def dbx_def Let_def logger_fields is_move_call_def)

lemma move_file_dry_run:
  "dry_run cfg \<Longrightarrow> move_file cfg bk f t s = (True, logger (Would_move f t) s)"
  by (simp add: move_file_def)

lemma move_file_result:
  "\<not> dry_run cfg \<Longrightarrow> fst (move_file cfg bk f t s) = (bk (calls s) (Files_move_v2 f t) = Success)"
  by (simp add: move_file_def dbx_def Let_def)

lemma move_file_calls:
  "calls (snd (move_file cfg bk f t s)) =
     (if dry_run cfg then calls s else calls s @ [Files_move_v2 f t])"
  by (simp add: move_file_def dbx_def Let_def logger_fields)

lemma move_file_move_attempts:
  "move_attempts (snd (move_file cfg bk f t s)) =
     move_attempts s @ [(f, t, fst (move_file cfg bk f t s))]"
  by (simp add: move_file_def dbx_def Let_def move_attempts_logger move_attempts_update)

lemma move_file_stats:
  "photos_moved (snd (move_file cfg bk f t s)) = photos_moved s"
  "documents_moved (snd (move_file cfg bk f t s)) = documents_moved s"
  "temp_moved (snd (move_file cfg bk f t s)) = temp_moved s"
  "skipped (snd (move_file cfg bk f t s)) = skipped s"
  "errors (snd (move_file cfg bk f t s)) =
     errors s + (if fst (move_file cfg bk f t s) then 0 else 1)"
  by (simp_all add: move_file_def dbx_def Let_def logger_fields)

lemma move_file_succeeds: "moves_succeed cfg bk \<Longrightarrow> fst (move_file cfg bk f t s)"
  by (auto simp: moves_succeed_def move_file_def dbx_def Let_def)

lemma move_file_move_calls:
  "filter is_move_call (calls (snd (move_file cfg bk f t s))) =
     filter is_move_call (calls s) @ (if dry_run cfg then [] else [Files_move_v2 f t])"
  by (simp add: move_file_calls is_move_call_def)

lemma organize_photo_idle:
  "\<not> photo_match cfg n \<or> moved \<Longrightarrow> organize_photo cfg bk p n (moved, s) = (moved, s)"
  by (auto simp: organize_photo_def photo_match_def split: option.splits)

lemma organize_photo_run:
  fixes cfg :: config and bk :: backend and p n :: string and s :: organizer
  assumes "photo_match cfg n"
  defines "r \<equiv> organize_photo cfg bk p n (False, s)"
  shows "move_attempts (snd r) = move_attempts s @ [(p, photo_path cfg (year_of cfg n) n, fst r)]"
    and "photos_moved (snd r) = photos_moved s + (if fst r then 1 else 0)"
    and "documents_moved (snd r) = documents_moved s"
    and "temp_moved (snd r) = temp_moved s"
    and "errors (snd r) = errors s + (if fst r then 0 else 1)"
    and "skipped (snd r) = skipped s"
    and "moves_succeed cfg bk \<Longrightarrow> fst r"
    and "dry_run cfg \<Longrightarrow> calls (snd r) = calls s"
    and "filter is_move_call (calls (snd r)) = filter is_move_call (calls s) @
           (if dry_run cfg then [] else [Files_move_v2 p (photo_path cfg (year_of cfg n) n)])"
  using assms(1) unfolding r_def
  by (auto simp: organize_photo_def photo_match_def year_of_def photo_path_def Let_def split_def
      move_attempts_update move_file_move_attempts ensure_folder_exists_move_attempts
      move_file_stats ensure_folder_exists_stats move_file_succeeds move_file_calls
      ensure_folder_exists_dry_run ensure_folder_exists_move_calls is_move_call_def
      split: option.splits)

lemma organize_document_idle:
  "\<not> is_document cfg n \<or> moved \<Longrightarrow> organize_document cfg bk p n (moved, s) = (moved, s)"
  by (auto simp: organize_document_def)

lemma organize_document_run:
  fixes cfg :: config and bk :: backend and p n :: string and s :: organizer
  assumes "is_document cfg n"
  defines "r \<equiv> organize_document cfg bk p n (False, s)"
  shows "move_attempts (snd r) = move_attempts s @ [(p, document_path cfg n, fst r)]"
    and "photos_moved (snd r) = photos_moved s"
    and "documents_moved (snd r) = documents_moved s + (if fst r then 1 else 0)"
    and "temp_moved (snd r) = temp_moved s"
    and "errors (snd r) = errors s + (if fst r then 0 else 1)"
    and "skipped (snd r) = skipped s"
    and "moves_succeed cfg bk \<Longrightarrow> fst r"
    and "dry_run cfg \<Longrightarrow> calls (snd r) = calls s"
    and "filter is_move_call (calls (snd r)) = filter is_move_call (calls s) @
           (if dry_run cfg then [] else [Files_move_v2 p (document_path cfg n)])"
  using assms(1) unfolding r_def
  by (auto simp: organize_document_def document_path_def Let_def split_def
      move_attempts_update move_file_move_attempts ensure_folder_exists_move_attempts
      move_file_stats ensure_folder_exists_stats move_file_succeeds move_file_calls
      ensure_folder_exists_dry_run ensure_folder_exists_move_calls is_move_call_def)

lemma organize_temp_idle:
  "\<not> is_temp_file cfg n \<or> moved \<Longrightarrow> organize_temp cfg bk p n (moved, s) = (moved, s)"
  by (auto simp: organize_temp_def)

lemma organize_temp_run:
  fixes cfg :: config and bk :: backend and p n :: string and s :: organizer
  assumes "is_temp_file cfg n"
  defines "r \<equiv> organize_temp cfg bk p n (False, s)"
  shows "move_attempts (snd r) = move_attempts s @ [(p, temp_path cfg n, fst r)]"
    and "photos_moved (snd r) = photos_moved s"
    and "documents_moved (snd r) = documents_moved s"
    and "temp_moved (snd r) = temp_moved s + (if fst r then 1 else 0)"
    and "errors (snd r) = errors s + (if fst r then 0 else 1)"
    and "skipped (snd r) = skipped s"
    and "moves_succeed cfg bk \<Longrightarrow> fst r"
    and "dry_run cfg \<Longrightarrow> calls (snd r) = calls s"
    and "filter is_move_call (calls (snd r)) = filter is_move_call (calls s) @
           (if dry_run cfg then [] else [Files_move_v2 p (temp_path cfg n)])"
  using assms(1) unfolding r_def
  by (auto simp: organize_temp_def temp_path_def Let_def split_def
      move_attempts_update move_file_move_attempts ensure_folder_exists_move_attempts
      move_file_stats ensure_folder_exists_stats move_file_succeeds move_file_calls
      ensure_folder_exists_dry_run ensure_folder_exists_move_calls is_move_call_def)

lemma organize_photo_step:
  assumes "organize_photo cfg bk p n (m, s) = (m', s')"
  shows "move_attempts s' = move_attempts s @
           (if \<not> m \<and> photo_match cfg n then [(p, photo_path cfg (year_of cfg n) n, m')] else []) \<and>
         photos_moved s' = photos_moved s + (if m' \<and> \<not> m then 1 else 0) \<and>
         documents_moved s' = documents_moved s \<and>
         temp_moved s' = temp_moved s \<and>
         errors s' = errors s + (if \<not> m \<and> photo_match cfg n \<and> \<not> m' then 1 else 0) \<and>
         skipped s' = skipped s \<and>
         (m \<longrightarrow> m') \<and> (m' \<longrightarrow> m \<or> photo_match cfg n) \<and>
         (moves_succeed cfg bk \<longrightarrow> photo_match cfg n \<longrightarrow> m') \<and>
         (dry_run cfg \<longrightarrow> calls s' = calls s) \<and>
         filter is_move_call (calls s') = filter is_move_call (calls s) @
           (if \<not> m \<and> photo_match cfg n \<and> \<not> dry_run cfg then [Files_move_v2 p (photo_path cfg (year_of cfg n) n)] else [])"
proof (cases "\<not> m \<and> photo_match cfg n")
  case True
  then have m: "m = False" and match: "photo_match cfg n"
    by simp_all
  show ?thesis
    using organize_photo_run[OF match, of bk p s] assms True
    by (simp add: m)
next
  case False
  then have "m' = m" "s' = s"
    using assms organize_photo_idle[of cfg n m bk p s] by auto
  with False show ?thesis
    by auto
qed

lemma organize_document_step:
  assumes "organize_document cfg bk p n (m, s) = (m', s')"
  shows "move_attempts s' = move_attempts s @
           (if \<not> m \<and> is_document cfg n then [(p, document_path cfg n, m')] else []) \<and>
         photos_moved s' = photos_moved s \<and>
         documents_moved s' = documents_moved s + (if m' \<and> \<not> m then 1 else 0) \<and>
         temp_moved s' = temp_moved s \<and>
         errors s' = errors s + (if \<not> m \<and> is_document cfg n \<and> \<not> m' then 1 else 0) \<and>
         skipped s' = skipped s \<and>
         (m \<longrightarrow> m') \<and> (m' \<longrightarrow> m \<or> is_document cfg n) \<and>
         (moves_succeed cfg bk \<longrightarrow> is_document cfg n \<longrightarrow> m') \<and>
         (dry_run cfg \<longrightarrow> calls s' = calls s) \<and>
         filter is_move_call (calls s') = filter is_move_call (calls s) @
           (if \<not> m \<and> is_document cfg n \<and> \<not> dry_run cfg then [Files_move_v2 p (document_path cfg n)] else [])"
proof (cases "\<not> m \<and> is_document cfg n")
  case True
  then have m: "m = False" and match: "is_document cfg n"
    by simp_all
  show ?thesis
    using organize_document_run[OF match, of bk p s] assms True
    by (simp add: m)
next
  case False
  then have "m' = m" "s' = s"
    using assms organize_document_idle[of cfg n m bk p s] by auto
  with False show ?thesis
    by auto
qed

lemma organize_temp_step:
  assumes "organize_temp cfg bk p n (m, s) = (m', s')"
  shows "move_attempts s' = move_attempts s @
           (if \<not> m \<and> is_temp_file cfg n then [(p, temp_path cfg n, m')] else []) \<and>
         photos_moved s' = photos_moved s \<and>
         documents_moved s' = documents_moved s \<and>
         temp_moved s' = temp_moved s + (if m' \<and> \<not> m then 1 else 0) \<and>
         errors s' = errors s + (if \<not> m \<and> is_temp_file cfg n \<and> \<not> m' then 1 else 0) \<and>
         skipped s' = skipped s \<and>
         (m \<longrightarrow> m') \<and> (m' \<longrightarrow> m \<or> is_temp_file cfg n) \<and>
         (moves_succeed cfg bk \<longrightarrow> is_temp_file cfg n \<longrightarrow> m') \<and>
         (dry_run cfg \<longrightarrow> calls s' = calls s) \<and>
         filter is_move_call (calls s') = filter is_move_call (calls s) @
           (if \<not> m \<and> is_temp_file cfg n \<and> \<not> dry_run cfg then [Files_move_v2 p (temp_path cfg n)] else [])"
proof (cases "\<not> m \<and> is_temp_file cfg n")
  case True
  then have m: "m = False" and match: "is_temp_file cfg n"
    by simp_all
  show ?thesis
    using organize_temp_run[OF match, of bk p s] assms True
    by (simp add: m)
next
  case False
  then have "m' = m" "s' = s"
    using assms organize_temp_idle[of cfg n m bk p s] by auto
  with False show ?thesis
    by auto
qed

lemma organize_file_skipped:
  "should_skip cfg (path_display md) (name md) \<Longrightarrow>
     organize_file cfg bk md s = (logger (Skipping (path_display md)) s)\<lparr>skipped := skipped s + 1\<rparr>"
  by (simp add: organize_file_def Let_def)

lemma organize_file_not_skipped:
  assumes "\<not> should_skip cfg (path_display md) (name md)"
  shows "\<exists>f1 f2 f3. flags_ok cfg md f1 f2 f3 \<and>
     move_attempts (organize_file cfg bk md s) = move_attempts s @ chain cfg md f1 f2 f3 \<and>
     photos_moved (organize_file cfg bk md s) = photos_moved s + (if f1 then 1 else 0) \<and>
     documents_moved (organize_file cfg bk md s) = documents_moved s + (if f2 \<and> \<not> f1 then 1 else 0) \<and>
     temp_moved (organize_file cfg bk md s) = temp_moved s + (if f3 \<and> \<not> f2 then 1 else 0) \<and>
     errors (organize_file cfg bk md s) =
       errors s + int (length (filter (\<lambda>a. \<not> snd (snd a)) (chain cfg md f1 f2 f3))) \<and>
     skipped (organize_file cfg bk md s) = skipped s \<and>
     (moves_succeed cfg bk \<longrightarrow> list_all (\<lambda>a. snd (snd a)) (chain cfg md f1 f2 f3)) \<and>
     (dry_run cfg \<longrightarrow> calls (organize_file cfg bk md s) = calls s) \<and>
     filter is_move_call (calls (organize_file cfg bk md s)) =
       filter is_move_call (calls s) @
       (if dry_run cfg then [] else map (\<lambda>a. Files_move_v2 (fst a) (fst (snd a))) (chain cfg md f1 f2 f3))"
proof -
  define p n where "p = path_display md" and "n = name md"
  obtain f1 s1 where r1: "organize_photo cfg bk p n (False, s) = (f1, s1)"
    by (cases "organize_photo cfg bk p n (False, s)")
  obtain f2 s2 where r2: "organize_document cfg bk p n (f1, s1) = (f2, s2)"
    by (cases "organize_document cfg bk p n (f1, s1)")
  obtain f3 s3 where r3: "organize_temp cfg bk p n (f2, s2) = (f3, s3)"
    by (cases "organize_temp cfg bk p n (f2, s2)")
  have res: "organize_file cfg bk md s = s3"
    using assms by (simp add: organize_file_def Let_def r3 r2 r1 p_def[symmetric] n_def[symmetric])
  note F1 = organize_photo_step[OF r1]
  note F2 = organize_document_step[OF r2]
  note F3 = organize_temp_step[OF r3]
  show ?thesis
    unfolding res
    apply (rule exI[of _ f1], rule exI[of _ f2], rule exI[of _ f3])
    using F1 F2 F3
    by (simp add: chain_def flags_ok_def p_def[symmetric] n_def[symmetric])
qed

lemma chain_butlast_failed:
  "flags_ok cfg md f1 f2 f3 \<Longrightarrow> a \<in> set (butlast (chain cfg md f1 f2 f3)) \<Longrightarrow> \<not> snd (snd a)"
  by (cases f1; cases f2; cases f3; cases "photo_match cfg (name md)";
      cases "is_document cfg (name md)"; cases "is_temp_file cfg (name md)")
     (simp_all add: chain_def flags_ok_def, auto)

lemma chain_count_succeeded:
  "flags_ok cfg md f1 f2 f3 \<Longrightarrow>
   int (length (filter (\<lambda>a. snd (snd a)) (chain cfg md f1 f2 f3))) =
     (if f1 then 1 else 0) + (if f2 \<and> \<not> f1 then 1 else 0) + (if f3 \<and> \<not> f2 then 1 else 0)"
  by (cases f1; cases f2; cases f3; cases "photo_match cfg (name md)";
      cases "is_document cfg (name md)"; cases "is_temp_file cfg (name md)")
     (simp_all add: chain_def flags_ok_def)


section \<open>Evaluation of the examples\<close>

lemmas eval_defs = organize_file_def organize_photo_def organize_document_def organize_temp_def
  should_skip_def extract_year_from_filename_def is_document_def is_temp_file_def
  ensure_folder_exists_def move_file_def dbx_def logger_def folders_get_def
  splitext_def rfind_def lower_def lower_char_def uppercase_def lowercase_def is_digit_def
  startswith_def init_organizer_def Let_def split_def

lemmas observe_defs = move_attempts_def List.map_filter_simps total_moved_def stats_def

text \<open>
  A file that carries a year and a document extension, on a backend that refuses the move
  into the photo archive: the photo move fails and the document move follows.
\<close>

lemma report_2023_photos_rejected:
  "organize_file example_config photos_rejected
     (FileMetadata ''report_2023.pdf'' ''/report_2023.pdf'') init_organizer =
   \<lparr>photos_moved = 0, documents_moved = 1, temp_moved = 0, errors = 1, skipped = 0,
    calls =
      [Files_get_metadata ''/Photos Archive'',
       Files_get_metadata ''/Photos Archive/2023'',
       Files_move_v2 ''/report_2023.pdf'' ''/Photos Archive/2023/report_2023.pdf'',
       Files_get_metadata ''/Documents & Files'',
       Files_move_v2 ''/report_2023.pdf'' ''/Documents & Files/report_2023.pdf''],
    log =
      [Folder_already_exists ''/Photos Archive'',
       Folder_already_exists ''/Photos Archive/2023'',
       Error_moving_file ''/report_2023.pdf'' ''/Photos Archive/2023/report_2023.pdf'',
       Folder_already_exists ''/Documents & Files'',
       Moved ''/report_2023.pdf'' ''/Documents & Files/report_2023.pdf'']\<rparr>"
  by (simp add: eval_defs example_config_def photos_rejected_def)


section \<open>At most one move per file is counted\<close>

text \<open>
  Claim C10. For one file entry, no counter of moved files decreases and the sum
  \<open>photos_moved + documents_moved + temp_moved\<close> grows by at most one. The move attempts
  made for the entry are such that every attempt but the last one failed: once a move has
  succeeded no further block runs and no further move is attempted. The sum grows by the
  number of attempts that succeeded, so no entry is counted as moved into two categories.
\<close>

theorem organize_file_total_moved:
  "photos_moved s \<le> photos_moved (organize_file cfg bk md s) \<and>
   documents_moved s \<le> documents_moved (organize_file cfg bk md s) \<and>
   temp_moved s \<le> temp_moved (organize_file cfg bk md s) \<and>
   total_moved (organize_file cfg bk md s) \<le> total_moved s + 1 \<and>
   (\<exists>new. move_attempts (organize_file cfg bk md s) = move_attempts s @ new \<and>
      (\<forall>a \<in> set (butlast new). \<not> snd (snd a)) \<and>
      total_moved (organize_file cfg bk md s) =
        total_moved s + int (length (filter (\<lambda>a. snd (snd a)) new)))"
proof (cases "should_skip cfg (path_display md) (name md)")
  case True
  show ?thesis
    unfolding organize_file_skipped[OF True]
    by (simp add: total_moved_def logger_fields move_attempts_update move_attempts_logger)
next
  case False
  from organize_file_not_skipped[OF False, of bk s]
  obtain f1 f2 f3 where ok: "flags_ok cfg md f1 f2 f3"
    and att: "move_attempts (organize_file cfg bk md s) = move_attempts s @ chain cfg md f1 f2 f3"
    and ph: "photos_moved (organize_file cfg bk md s) = photos_moved s + (if f1 then 1 else 0)"
    and doc: "documents_moved (organize_file cfg bk md s) =
                documents_moved s + (if f2 \<and> \<not> f1 then 1 else 0)"
    and tmp: "temp_moved (organize_file cfg bk md s) = temp_moved s + (if f3 \<and> \<not> f2 then 1 else 0)"
    by blast
  have total: "total_moved (organize_file cfg bk md s) =
      total_moved s + int (length (filter (\<lambda>a. snd (snd a)) (chain cfg md f1 f2 f3)))"
    unfolding chain_count_succeeded[OF ok] total_moved_def ph doc tmp by simp
  have le: "total_moved (organize_file cfg bk md s) \<le> total_moved s + 1"
    unfolding total_moved_def ph doc tmp using ok by (simp add: flags_ok_def)
  have "\<forall>a \<in> set (butlast (chain cfg md f1 f2 f3)). \<not> snd (snd a)"
    using chain_butlast_failed[OF ok] by blast
  with att total have "\<exists>new. move_attempts (organize_file cfg bk md s) = move_attempts s @ new \<and>
      (\<forall>a \<in> set (butlast new). \<not> snd (snd a)) \<and>
      total_moved (organize_file cfg bk md s) =
        total_moved s + int (length (filter (\<lambda>a. snd (snd a)) new))"
    by blast
  moreover have "photos_moved s \<le> photos_moved (organize_file cfg bk md s)"
    "documents_moved s \<le> documents_moved (organize_file cfg bk md s)"
    "temp_moved s \<le> temp_moved (organize_file cfg bk md s)"
    by (simp_all add: ph doc tmp)
  ultimately show ?thesis
    using le by blast
qed

text \<open>
  The bound at the file that falls through from photos to documents: two attempts, the
  first one failed, one move counted.
\<close>

theorem organize_file_total_moved_witness:
  "move_attempts (organize_file example_config photos_rejected
      (FileMetadata ''report_2023.pdf'' ''/report_2023.pdf'') init_organizer) =
     [(''/report_2023.pdf'', ''/Photos Archive/2023/report_2023.pdf'', False),
      (''/report_2023.pdf'', ''/Documents & Files/report_2023.pdf'', True)] \<and>
   total_moved (organize_file example_config photos_rejected
      (FileMetadata ''report_2023.pdf'' ''/report_2023.pdf'') init_organizer) = 1 \<and>
   total_moved (organize_file example_config photos_rejected
      (FileMetadata ''report_2023.pdf'' ''/report_2023.pdf'') init_organizer)
     \<le> total_moved init_organizer + 1"
proof -
  have "total_moved (organize_file example_config photos_rejected
      (FileMetadata ''report_2023.pdf'' ''/report_2023.pdf'') init_organizer)
     \<le> total_moved init_organizer + 1"
    using organize_file_total_moved[of init_organizer example_config photos_rejected
        "FileMetadata ''report_2023.pdf'' ''/report_2023.pdf''"]
    by blast
  then show ?thesis
    by (simp add: report_2023_photos_rejected observe_defs)
qed

section \<open>The first decision for an entry\<close>

lemma str_in_iff: "str_in sub s \<longleftrightarrow> (\<exists>a b. s = a @ sub @ b)"
proof (induction s)
  case Nil
  then show ?case by auto
next
  case (Cons c cs)
  show ?case
  proof
    assume "str_in sub (c # cs)"
    then consider "prefix sub (c # cs)" | "str_in sub cs" by auto
    then show "\<exists>a b. c # cs = a @ sub @ b"
    proof cases
      case 1
      then obtain b where "c # cs = sub @ b" by (auto simp: prefix_def)
      then have "c # cs = [] @ sub @ b" by simp
      then show ?thesis by blast
    next
      case 2
      with Cons.IH obtain a b where "cs = a @ sub @ b" by blast
      then have "c # cs = (c # a) @ sub @ b" by simp
      then show ?thesis by blast
    qed
  next
    assume "\<exists>a b. c # cs = a @ sub @ b"
    then obtain a b where ab: "c # cs = a @ sub @ b" by blast
    show "str_in sub (c # cs)"
    proof (cases a)
      case Nil
      with ab have "prefix sub (c # cs)" by (simp add: prefix_def)
      then show ?thesis by simp
    next
      case (Cons x a')
      with ab have "cs = a' @ sub @ b" by simp
      with Cons.IH have "str_in sub cs" by blast
      then show ?thesis by simp
    qed
  qed
qed

lemma startswith_iff: "startswith s p \<longleftrightarrow> (\<exists>r. s = p @ r)"
  by (simp add: startswith_def prefix_def)

lemma should_skip_iff:
  "should_skip cfg p n \<longleftrightarrow>
     (\<exists>folder \<in> set (skip_folders cfg). \<exists>a b. p = a @ folder @ b) \<or>
     (\<exists>skip_file \<in> set (skip_files cfg). n = skip_file \<or> (\<exists>r. n = skip_file @ r))"
  by (simp add: should_skip_def list_ex_iff str_in_iff startswith_iff)

lemma chain_head:
  "flags_ok cfg md f1 f2 f3 \<Longrightarrow>
   (case chain cfg md f1 f2 f3 of [] \<Rightarrow> NoMatch | a # _ \<Rightarrow> MoveTo (fst (snd a))) =
     (if photo_match cfg (name md)
        then MoveTo (photo_path cfg (year_of cfg (name md)) (name md))
      else if is_document cfg (name md) then MoveTo (document_path cfg (name md))
      else if is_temp_file cfg (name md) then MoveTo (temp_path cfg (name md))
      else NoMatch)"
  by (cases f1; cases f2; cases f3; cases "photo_match cfg (name md)";
      cases "is_document cfg (name md)"; cases "is_temp_file cfg (name md)")
     (simp_all add: chain_def flags_ok_def)

lemma organize_file_decision: "decision s (organize_file cfg bk md s) = route cfg md"
proof (cases "should_skip cfg (path_display md) (name md)")
  case True
  then show ?thesis
    by (simp add: organize_file_skipped decision_def route_def)
next
  case False
  from organize_file_not_skipped[OF False, of bk s]
  obtain f1 f2 f3 where ok: "flags_ok cfg md f1 f2 f3"
    and att: "move_attempts (organize_file cfg bk md s) = move_attempts s @ chain cfg md f1 f2 f3"
    and sk: "skipped (organize_file cfg bk md s) = skipped s"
    by blast
  show ?thesis
    using False chain_head[OF ok] by (simp add: decision_def route_def att sk)
qed

lemma organize_file_no_match:
  assumes "\<not> should_skip cfg (path_display md) (name md)"
    and "\<not> photo_match cfg (name md)"
    and "\<not> is_document cfg (name md)"
    and "\<not> is_temp_file cfg (name md)"
  shows "organize_file cfg bk md s = s"
  using assms
  by (simp add: organize_file_def Let_def organize_photo_idle organize_document_idle
      organize_temp_idle)

lemma chain_photo:
  "flags_ok cfg md f1 f2 f3 \<Longrightarrow> photo_match cfg (name md) \<Longrightarrow>
   \<exists>rest. chain cfg md f1 f2 f3 =
      (path_display md, photo_path cfg (year_of cfg (name md)) (name md), f1) # rest \<and>
      (f1 \<longrightarrow> rest = [])"
  by (cases f1; cases f2; cases f3; cases "is_document cfg (name md)";
      cases "is_temp_file cfg (name md)") (simp_all add: chain_def flags_ok_def)

lemma chain_document:
  "flags_ok cfg md f1 f2 f3 \<Longrightarrow> \<not> photo_match cfg (name md) \<Longrightarrow> is_document cfg (name md) \<Longrightarrow>
   \<not> f1 \<and> (\<exists>rest. chain cfg md f1 f2 f3 =
      (path_display md, document_path cfg (name md), f2) # rest \<and> (f2 \<longrightarrow> rest = []))"
  by (cases f1; cases f2; cases f3; cases "is_temp_file cfg (name md)")
     (simp_all add: chain_def flags_ok_def)

lemma chain_temp:
  "flags_ok cfg md f1 f2 f3 \<Longrightarrow> \<not> photo_match cfg (name md) \<Longrightarrow> \<not> is_document cfg (name md) \<Longrightarrow>
   is_temp_file cfg (name md) \<Longrightarrow>
   \<not> f1 \<and> \<not> f2 \<and> chain cfg md f1 f2 f3 = [(path_display md, temp_path cfg (name md), f3)]"
  by (cases f1; cases f2; cases f3) (simp_all add: chain_def flags_ok_def)

section \<open>More evaluations of the examples\<close>

text \<open>The rules on the file names of the repository's demonstration (\<open>demo.py\<close>).\<close>

lemmas match_defs = photo_match_def year_of_def photo_path_def document_path_def temp_path_def

lemma dropbox_marker_rules:
  "should_skip example_config ''/.dropbox'' ''.dropbox''"
  by (simp add: eval_defs example_config_def)

lemma vacation_rules:
  "\<not> should_skip example_config ''/vacation_2023_beach.jpg'' ''vacation_2023_beach.jpg''"
  "photo_match example_config ''vacation_2023_beach.jpg''"
  "year_of example_config ''vacation_2023_beach.jpg'' = ''2023''"
  by (simp_all add: eval_defs match_defs example_config_def)

lemma report_rules:
  "\<not> should_skip example_config ''/report.pdf'' ''report.pdf''"
  "\<not> photo_match example_config ''report.pdf''"
  "is_document example_config ''report.pdf''"
  by (simp_all add: eval_defs match_defs example_config_def)

lemma user_scoped_temp_rules:
  "\<not> should_skip example_config ''/USER_SCOPED_TEMP_abc123'' ''USER_SCOPED_TEMP_abc123''"
  "\<not> photo_match example_config ''USER_SCOPED_TEMP_abc123''"
  "\<not> is_document example_config ''USER_SCOPED_TEMP_abc123''"
  "is_temp_file example_config ''USER_SCOPED_TEMP_abc123''"
  by (simp_all add: eval_defs match_defs example_config_def)

lemma random_file_rules:
  "\<not> should_skip example_config ''/random_file.dat'' ''random_file.dat''"
  "\<not> photo_match example_config ''random_file.dat''"
  "\<not> is_document example_config ''random_file.dat''"
  "\<not> is_temp_file example_config ''random_file.dat''"
  by (simp_all add: eval_defs match_defs example_config_def)

lemma report_2023_rules:
  "\<not> should_skip example_config ''/report_2023.pdf'' ''report_2023.pdf''"
  "photo_match example_config ''report_2023.pdf''"
  "is_document example_config ''report_2023.pdf''"
  by (simp_all add: eval_defs match_defs example_config_def)

lemma accepting_moves_succeed: "moves_succeed cfg accepting"
  by (simp add: moves_succeed_def accepting_def)


section \<open>Priority of the rules\<close>

text \<open>
  Claim C1, as stated, fails. The file \<open>report_2023.pdf\<close> matches the photo rule and the
  document rule. On a backend that refuses the move into the photo archive,
  \<open>_move_file\<close> returns \<open>False\<close>, the flag \<open>moved\<close> stays \<open>False\<close>, the document block runs and
  the file is moved to the documents folder: it ends in the lower-priority category, after
  moves to two categories were attempted.
\<close>

theorem first_match_wins_counterexample:
  "\<not> should_skip example_config ''/report_2023.pdf'' ''report_2023.pdf'' \<and>
   photo_match example_config ''report_2023.pdf'' \<and>
   is_document example_config ''report_2023.pdf'' \<and>
   photos_moved (organize_file example_config photos_rejected
      (FileMetadata ''report_2023.pdf'' ''/report_2023.pdf'') init_organizer) = 0 \<and>
   documents_moved (organize_file example_config photos_rejected
      (FileMetadata ''report_2023.pdf'' ''/report_2023.pdf'') init_organizer) = 1 \<and>
   move_attempts (organize_file example_config photos_rejected
      (FileMetadata ''report_2023.pdf'' ''/report_2023.pdf'') init_organizer) =
     [(''/report_2023.pdf'', ''/Photos Archive/2023/report_2023.pdf'', False),
      (''/report_2023.pdf'', ''/Documents & Files/report_2023.pdf'', True)]"
  by (simp add: report_2023_rules report_2023_photos_rejected observe_defs)

text \<open>
  Claim C1, amended. The rules are evaluated in the fixed order skip, photo (year match),
  document (extension match), temp (substring match). A skipped file is counted as skipped
  and no move is attempted. Otherwise the first move attempted goes to the first category,
  in that order, whose rule matches. If that move succeeds (as every move does in a dry
  run or on a backend that accepts every move), it is the only attempt and the file is
  counted for that category alone. Only after a failed move does evaluation go on to the
  categories of lower priority. A file that matches no rule leaves the state unchanged.
\<close>

theorem organize_file_priority:
  assumes s': "s' = organize_file cfg bk md s" and p: "p = path_display md" and n: "n = name md"
  shows
    "(should_skip cfg p n \<longrightarrow>
        move_attempts s' = move_attempts s \<and> skipped s' = skipped s + 1 \<and>
        photos_moved s' = photos_moved s \<and> documents_moved s' = documents_moved s \<and>
        temp_moved s' = temp_moved s) \<and>
     (\<not> should_skip cfg p n \<and> photo_match cfg n \<longrightarrow>
        (\<exists>ok rest. move_attempts s' = move_attempts s @ (p, photo_path cfg (year_of cfg n) n, ok) # rest \<and>
           (moves_succeed cfg bk \<longrightarrow> ok) \<and>
           (ok \<longrightarrow> rest = [] \<and> photos_moved s' = photos_moved s + 1 \<and>
              documents_moved s' = documents_moved s \<and> temp_moved s' = temp_moved s))) \<and>
     (\<not> should_skip cfg p n \<and> \<not> photo_match cfg n \<and> is_document cfg n \<longrightarrow>
        (\<exists>ok rest. move_attempts s' = move_attempts s @ (p, document_path cfg n, ok) # rest \<and>
           (moves_succeed cfg bk \<longrightarrow> ok) \<and>
           (ok \<longrightarrow> rest = [] \<and> photos_moved s' = photos_moved s \<and>
              documents_moved s' = documents_moved s + 1 \<and> temp_moved s' = temp_moved s))) \<and>
     (\<not> should_skip cfg p n \<and> \<not> photo_match cfg n \<and> \<not> is_document cfg n \<and> is_temp_file cfg n \<longrightarrow>
        (\<exists>ok. move_attempts s' = move_attempts s @ [(p, temp_path cfg n, ok)] \<and>
           (moves_succeed cfg bk \<longrightarrow> ok) \<and>
           (ok \<longrightarrow> photos_moved s' = photos_moved s \<and>
              documents_moved s' = documents_moved s \<and> temp_moved s' = temp_moved s + 1))) \<and>
     (\<not> should_skip cfg p n \<and> \<not> photo_match cfg n \<and> \<not> is_document cfg n \<and> \<not> is_temp_file cfg n \<longrightarrow>
        s' = s)"
proof (cases "should_skip cfg p n")
  case True
  then show ?thesis
    unfolding s' using organize_file_skipped[of cfg md bk s]
    by (simp add: p n logger_fields move_attempts_update move_attempts_logger)
next
  case False
  from organize_file_not_skipped[of cfg md bk s] False
  obtain f1 f2 f3 where ok: "flags_ok cfg md f1 f2 f3"
    and att: "move_attempts s' = move_attempts s @ chain cfg md f1 f2 f3"
    and ph: "photos_moved s' = photos_moved s + (if f1 then 1 else 0)"
    and doc: "documents_moved s' = documents_moved s + (if f2 \<and> \<not> f1 then 1 else 0)"
    and tmp: "temp_moved s' = temp_moved s + (if f3 \<and> \<not> f2 then 1 else 0)"
    and suc: "moves_succeed cfg bk \<longrightarrow> list_all (\<lambda>a. snd (snd a)) (chain cfg md f1 f2 f3)"
    unfolding s' p n by blast
  have flags: "f1 \<longrightarrow> f2" "f2 \<longrightarrow> f3"
    using ok by (simp_all add: flags_ok_def)
  have photo: "\<exists>ok rest. move_attempts s' =
          move_attempts s @ (p, photo_path cfg (year_of cfg n) n, ok) # rest \<and>
          (moves_succeed cfg bk \<longrightarrow> ok) \<and>
          (ok \<longrightarrow> rest = [] \<and> photos_moved s' = photos_moved s + 1 \<and>
             documents_moved s' = documents_moved s \<and> temp_moved s' = temp_moved s)"
    if "photo_match cfg n"
  proof -
    from chain_photo[OF ok] that obtain rest where
      c: "chain cfg md f1 f2 f3 = (p, photo_path cfg (year_of cfg n) n, f1) # rest"
      and r: "f1 \<longrightarrow> rest = []"
      unfolding p n by blast
    have "move_attempts s' = move_attempts s @ (p, photo_path cfg (year_of cfg n) n, f1) # rest"
      by (simp add: att c)
    moreover have "moves_succeed cfg bk \<longrightarrow> f1"
      using suc c by simp
    moreover have "f1 \<longrightarrow> rest = [] \<and> photos_moved s' = photos_moved s + 1 \<and>
             documents_moved s' = documents_moved s \<and> temp_moved s' = temp_moved s"
      using r flags by (simp add: ph doc tmp)
    ultimately show ?thesis by blast
  qed
  have document: "\<exists>ok rest. move_attempts s' =
          move_attempts s @ (p, document_path cfg n, ok) # rest \<and>
          (moves_succeed cfg bk \<longrightarrow> ok) \<and>
          (ok \<longrightarrow> rest = [] \<and> photos_moved s' = photos_moved s \<and>
             documents_moved s' = documents_moved s + 1 \<and> temp_moved s' = temp_moved s)"
    if "\<not> photo_match cfg n" "is_document cfg n"
  proof -
    from chain_document[OF ok] that obtain rest where
      c: "chain cfg md f1 f2 f3 = (p, document_path cfg n, f2) # rest"
      and r: "f2 \<longrightarrow> rest = []" and f1: "\<not> f1"
      unfolding p n by blast
    have "move_attempts s' = move_attempts s @ (p, document_path cfg n, f2) # rest"
      by (simp add: att c)
    moreover have "moves_succeed cfg bk \<longrightarrow> f2"
      using suc c by simp
    moreover have "f2 \<longrightarrow> rest = [] \<and> photos_moved s' = photos_moved s \<and>
             documents_moved s' = documents_moved s + 1 \<and> temp_moved s' = temp_moved s"
      using r flags f1 by (simp add: ph doc tmp)
    ultimately show ?thesis by blast
  qed
  have temp: "\<exists>ok. move_attempts s' = move_attempts s @ [(p, temp_path cfg n, ok)] \<and>
          (moves_succeed cfg bk \<longrightarrow> ok) \<and>
          (ok \<longrightarrow> photos_moved s' = photos_moved s \<and>
             documents_moved s' = documents_moved s \<and> temp_moved s' = temp_moved s + 1)"
    if "\<not> photo_match cfg n" "\<not> is_document cfg n" "is_temp_file cfg n"
  proof -
    from chain_temp[OF ok] that have
      c: "chain cfg md f1 f2 f3 = [(p, temp_path cfg n, f3)]" and f: "\<not> f1" "\<not> f2"
      unfolding p n by blast+
    have "move_attempts s' = move_attempts s @ [(p, temp_path cfg n, f3)]"
      by (simp add: att c)
    moreover have "moves_succeed cfg bk \<longrightarrow> f3"
      using suc c by simp
    moreover have "f3 \<longrightarrow> photos_moved s' = photos_moved s \<and>
             documents_moved s' = documents_moved s \<and> temp_moved s' = temp_moved s + 1"
      using f by (simp add: ph doc tmp)
    ultimately show ?thesis by blast
  qed
  have none: "s' = s"
    if "\<not> photo_match cfg n" "\<not> is_document cfg n" "\<not> is_temp_file cfg n"
    unfolding s' using False that organize_file_no_match[of cfg md bk s] by (simp add: p n)
  show ?thesis
    using False photo document temp none by blast
qed

text \<open>The five branches at the demonstration's file names, on a backend that accepts every call.\<close>

theorem organize_file_priority_witness:
  "(should_skip example_config ''/.dropbox'' ''.dropbox'' \<and>
    skipped (organize_file example_config accepting (FileMetadata ''.dropbox'' ''/.dropbox'')
      init_organizer) = skipped init_organizer + 1) \<and>
   (photo_match example_config ''vacation_2023_beach.jpg'' \<and>
    move_attempts (organize_file example_config accepting
      (FileMetadata ''vacation_2023_beach.jpg'' ''/vacation_2023_beach.jpg'') init_organizer) =
      [(''/vacation_2023_beach.jpg'', ''/Photos Archive/2023/vacation_2023_beach.jpg'', True)]) \<and>
   (is_document example_config ''report.pdf'' \<and>
    move_attempts (organize_file example_config accepting
      (FileMetadata ''report.pdf'' ''/report.pdf'') init_organizer) =
      [(''/report.pdf'', ''/Documents & Files/report.pdf'', True)]) \<and>
   (is_temp_file example_config ''USER_SCOPED_TEMP_abc123'' \<and>
    move_attempts (organize_file example_config accepting
      (FileMetadata ''USER_SCOPED_TEMP_abc123'' ''/USER_SCOPED_TEMP_abc123'') init_organizer) =
      [(''/USER_SCOPED_TEMP_abc123'', ''/Temp Files/USER_SCOPED_TEMP_abc123'', True)]) \<and>
   organize_file example_config accepting
      (FileMetadata ''random_file.dat'' ''/random_file.dat'') init_organizer = init_organizer"
proof -
  note inst = organize_file_priority[OF refl refl refl, of example_config _ accepting init_organizer]
  have init: "move_attempts init_organizer = []"
    by (simp add: init_organizer_def observe_defs)
  have "skipped (organize_file example_config accepting (FileMetadata ''.dropbox'' ''/.dropbox'')
      init_organizer) = skipped init_organizer + 1"
    using inst[of "FileMetadata ''.dropbox'' ''/.dropbox''"] dropbox_marker_rules by simp
  moreover have "move_attempts (organize_file example_config accepting
      (FileMetadata ''vacation_2023_beach.jpg'' ''/vacation_2023_beach.jpg'') init_organizer) =
      [(''/vacation_2023_beach.jpg'', ''/Photos Archive/2023/vacation_2023_beach.jpg'', True)]"
    using inst[of "FileMetadata ''vacation_2023_beach.jpg'' ''/vacation_2023_beach.jpg''"]
      vacation_rules accepting_moves_succeed init
    by (auto simp: photo_path_def folders_get_def example_config_def)
  moreover have "move_attempts (organize_file example_config accepting
      (FileMetadata ''report.pdf'' ''/report.pdf'') init_organizer) =
      [(''/report.pdf'', ''/Documents & Files/report.pdf'', True)]"
    using inst[of "FileMetadata ''report.pdf'' ''/report.pdf''"]
      report_rules accepting_moves_succeed init
    by (auto simp: document_path_def folders_get_def example_config_def)
  moreover have "move_attempts (organize_file example_config accepting
      (FileMetadata ''USER_SCOPED_TEMP_abc123'' ''/USER_SCOPED_TEMP_abc123'') init_organizer) =
      [(''/USER_SCOPED_TEMP_abc123'', ''/Temp Files/USER_SCOPED_TEMP_abc123'', True)]"
    using inst[of "FileMetadata ''USER_SCOPED_TEMP_abc123'' ''/USER_SCOPED_TEMP_abc123''"]
      user_scoped_temp_rules accepting_moves_succeed init
    by (auto simp: temp_path_def folders_get_def example_config_def)
  moreover have "organize_file example_config accepting
      (FileMetadata ''random_file.dat'' ''/random_file.dat'') init_organizer = init_organizer"
    using inst[of "FileMetadata ''random_file.dat'' ''/random_file.dat''"] random_file_rules
    by simp
  ultimately show ?thesis
    using dropbox_marker_rules vacation_rules report_rules user_scoped_temp_rules by simp
qed


section \<open>The skip rule\<close>

text \<open>
  Claim C8. An entry is skipped exactly when its path contains one of the configured
  skip folders as a substring (anywhere in the path, so also inside the name of an
  unrelated folder), or its name equals or starts with one of the configured skip files.
  A skipped entry increments the counter \<open>skipped\<close> and nothing else: no move is attempted
  and no call reaches the backend. An entry that is not skipped leaves \<open>skipped\<close> as it is.
\<close>

theorem skip_rule:
  assumes s': "s' = organize_file cfg bk md s"
  shows
    "(should_skip cfg (path_display md) (name md) \<longleftrightarrow>
        (\<exists>folder \<in> set (skip_folders cfg). \<exists>a b. path_display md = a @ folder @ b) \<or>
        (\<exists>skip_file \<in> set (skip_files cfg).
            name md = skip_file \<or> (\<exists>r. name md = skip_file @ r))) \<and>
     (should_skip cfg (path_display md) (name md) \<longrightarrow>
        skipped s' = skipped s + 1 \<and> move_attempts s' = move_attempts s \<and> calls s' = calls s \<and>
        photos_moved s' = photos_moved s \<and> documents_moved s' = documents_moved s \<and>
        temp_moved s' = temp_moved s \<and> errors s' = errors s) \<and>
     (\<not> should_skip cfg (path_display md) (name md) \<longrightarrow> skipped s' = skipped s)"
proof -
  have "skipped s' = skipped s" if "\<not> should_skip cfg (path_display md) (name md)"
    using organize_file_not_skipped[OF that, of bk s] unfolding s' by blast
  moreover have "skipped s' = skipped s + 1 \<and> move_attempts s' = move_attempts s \<and>
      calls s' = calls s \<and> photos_moved s' = photos_moved s \<and>
      documents_moved s' = documents_moved s \<and> temp_moved s' = temp_moved s \<and> errors s' = errors s"
    if "should_skip cfg (path_display md) (name md)"
    unfolding s' organize_file_skipped[OF that]
    by (simp add: logger_fields move_attempts_update move_attempts_logger)
  ultimately show ?thesis
    using should_skip_iff[of cfg "path_display md" "name md"] by blast
qed

text \<open>
  A skip folder that is a substring of an unrelated folder name, a skip file, and a file
  that is not skipped.
\<close>

lemma old_archive_rules:
  "should_skip example_config ''/Old Photos Archive (2)/notes.txt'' ''notes.txt''"
  by (simp add: eval_defs example_config_def)

theorem skip_rule_witness:
  "(should_skip example_config ''/Old Photos Archive (2)/notes.txt'' ''notes.txt'' \<and>
    skipped (organize_file example_config accepting
      (FileMetadata ''notes.txt'' ''/Old Photos Archive (2)/notes.txt'') init_organizer) = 1 \<and>
    calls (organize_file example_config accepting
      (FileMetadata ''notes.txt'' ''/Old Photos Archive (2)/notes.txt'') init_organizer) = []) \<and>
   (should_skip example_config ''/.dropbox'' ''.dropbox'' \<and>
    skipped (organize_file example_config accepting
      (FileMetadata ''.dropbox'' ''/.dropbox'') init_organizer) = 1) \<and>
   (\<not> should_skip example_config ''/report.pdf'' ''report.pdf'' \<and>
    skipped (organize_file example_config accepting
      (FileMetadata ''report.pdf'' ''/report.pdf'') init_organizer) = 0)"
proof -
  note inst = skip_rule[OF refl, where cfg = example_config and bk = accepting and s = init_organizer]
  have "skipped (organize_file example_config accepting
      (FileMetadata ''notes.txt'' ''/Old Photos Archive (2)/notes.txt'') init_organizer) = 1 \<and>
    calls (organize_file example_config accepting
      (FileMetadata ''notes.txt'' ''/Old Photos Archive (2)/notes.txt'') init_organizer) = []"
    using inst[where md = "FileMetadata ''notes.txt'' ''/Old Photos Archive (2)/notes.txt''"] old_archive_rules
    by (simp add: init_organizer_def)
  moreover have "skipped (organize_file example_config accepting
      (FileMetadata ''.dropbox'' ''/.dropbox'') init_organizer) = 1"
    using inst[where md = "FileMetadata ''.dropbox'' ''/.dropbox''"] dropbox_marker_rules
    by (simp add: init_organizer_def)
  moreover have "skipped (organize_file example_config accepting
      (FileMetadata ''report.pdf'' ''/report.pdf'') init_organizer) = 0"
    using inst[where md = "FileMetadata ''report.pdf'' ''/report.pdf''"] report_rules
    by (simp add: init_organizer_def)
  ultimately show ?thesis
    using old_archive_rules dropbox_marker_rules report_rules by simp
qed

section \<open>Move attempts per entry\<close>

lemma chain_shape:
  "flags_ok cfg md f1 f2 f3 \<Longrightarrow>
   length (chain cfg md f1 f2 f3) \<le> 3 \<and>
   (\<forall>a \<in> set (chain cfg md f1 f2 f3). fst a = path_display md) \<and>
   subseq (map (\<lambda>a. fst (snd a)) (chain cfg md f1 f2 f3))
     [photo_path cfg (year_of cfg (name md)) (name md), document_path cfg (name md),
      temp_path cfg (name md)]"
  by (cases f1; cases f2; cases f3; cases "photo_match cfg (name md)";
      cases "is_document cfg (name md)"; cases "is_temp_file cfg (name md)")
     (simp_all add: chain_def flags_ok_def)

lemma chain_all_succeed:
  "flags_ok cfg md f1 f2 f3 \<Longrightarrow> list_all (\<lambda>a. snd (snd a)) (chain cfg md f1 f2 f3) \<Longrightarrow>
   length (chain cfg md f1 f2 f3) \<le> 1"
  by (cases f1; cases f2; cases f3; cases "photo_match cfg (name md)";
      cases "is_document cfg (name md)"; cases "is_temp_file cfg (name md)")
     (simp_all add: chain_def flags_ok_def)

text \<open>
  A file that carries a year, a document extension and a temp pattern, on a backend that
  refuses every move: each of the three blocks makes its own attempt.
\<close>

lemma scan_2023_sync_moves_rejected:
  "organize_file example_config moves_rejected
     (FileMetadata ''scan_2023_sync.pdf'' ''/scan_2023_sync.pdf'') init_organizer =
   \<lparr>photos_moved = 0, documents_moved = 0, temp_moved = 0, errors = 3, skipped = 0,
    calls =
      [Files_get_metadata ''/Photos Archive'',
       Files_get_metadata ''/Photos Archive/2023'',
       Files_move_v2 ''/scan_2023_sync.pdf'' ''/Photos Archive/2023/scan_2023_sync.pdf'',
       Files_get_metadata ''/Documents & Files'',
       Files_move_v2 ''/scan_2023_sync.pdf'' ''/Documents & Files/scan_2023_sync.pdf'',
       Files_get_metadata ''/Temp Files'',
       Files_move_v2 ''/scan_2023_sync.pdf'' ''/Temp Files/scan_2023_sync.pdf''],
    log =
      [Folder_already_exists ''/Photos Archive'',
       Folder_already_exists ''/Photos Archive/2023'',
       Error_moving_file ''/scan_2023_sync.pdf'' ''/Photos Archive/2023/scan_2023_sync.pdf'',
       Folder_already_exists ''/Documents & Files'',
       Error_moving_file ''/scan_2023_sync.pdf'' ''/Documents & Files/scan_2023_sync.pdf'',
       Folder_already_exists ''/Temp Files'',
       Error_moving_file ''/scan_2023_sync.pdf'' ''/Temp Files/scan_2023_sync.pdf'']\<rparr>"
  by (simp add: eval_defs example_config_def moves_rejected_def)

text \<open>
  Claim C2, as stated, fails. For the one entry \<open>scan_2023_sync.pdf\<close> three move attempts
  are made in one run, to the photo, document and temp destinations in turn, each after
  the previous one failed; three move calls reach the backend.
\<close>

theorem one_attempt_counterexample:
  "move_attempts (organize_file example_config moves_rejected
      (FileMetadata ''scan_2023_sync.pdf'' ''/scan_2023_sync.pdf'') init_organizer) =
     [(''/scan_2023_sync.pdf'', ''/Photos Archive/2023/scan_2023_sync.pdf'', False),
      (''/scan_2023_sync.pdf'', ''/Documents & Files/scan_2023_sync.pdf'', False),
      (''/scan_2023_sync.pdf'', ''/Temp Files/scan_2023_sync.pdf'', False)] \<and>
   filter is_move_call (calls (organize_file example_config moves_rejected
      (FileMetadata ''scan_2023_sync.pdf'' ''/scan_2023_sync.pdf'') init_organizer)) =
     [Files_move_v2 ''/scan_2023_sync.pdf'' ''/Photos Archive/2023/scan_2023_sync.pdf'',
      Files_move_v2 ''/scan_2023_sync.pdf'' ''/Documents & Files/scan_2023_sync.pdf'',
      Files_move_v2 ''/scan_2023_sync.pdf'' ''/Temp Files/scan_2023_sync.pdf'']"
  by (simp add: scan_2023_sync_moves_rejected observe_defs is_move_call_def)

text \<open>
  Claim C2, amended. For every file entry in a run, the engine makes at most one move
  attempt per category, in the order photo, document, temp, hence at most three for the
  entry, all from the entry's path. An attempt is made only after every earlier attempt
  for the entry failed, so a successful move is never followed by another attempt, and
  when moves succeed (in a dry run, or on a backend that accepts every move) there is at
  most one attempt. Outside a dry run each attempt is one move call on the backend.
\<close>

theorem move_attempts_per_entry:
  assumes s': "s' = organize_file cfg bk md s"
  shows "\<exists>new. move_attempts s' = move_attempts s @ new \<and>
     length new \<le> 3 \<and>
     (\<forall>a \<in> set new. fst a = path_display md) \<and>
     subseq (map (\<lambda>a. fst (snd a)) new)
       [photo_path cfg (year_of cfg (name md)) (name md), document_path cfg (name md),
        temp_path cfg (name md)] \<and>
     (\<forall>a \<in> set (butlast new). \<not> snd (snd a)) \<and>
     (moves_succeed cfg bk \<longrightarrow> length new \<le> 1) \<and>
     filter is_move_call (calls s') = filter is_move_call (calls s) @
       (if dry_run cfg then [] else map (\<lambda>a. Files_move_v2 (fst a) (fst (snd a))) new)"
proof (cases "should_skip cfg (path_display md) (name md)")
  case True
  have "move_attempts s' = move_attempts s @ []" "calls s' = calls s"
    unfolding s' organize_file_skipped[OF True]
    by (simp_all add: logger_fields move_attempts_update move_attempts_logger)
  then show ?thesis
    by (intro exI[of _ "[]"]) simp
next
  case False
  from organize_file_not_skipped[OF False, of bk s]
  obtain f1 f2 f3 where ok: "flags_ok cfg md f1 f2 f3"
    and att: "move_attempts s' = move_attempts s @ chain cfg md f1 f2 f3"
    and suc: "moves_succeed cfg bk \<longrightarrow> list_all (\<lambda>a. snd (snd a)) (chain cfg md f1 f2 f3)"
    and mv: "filter is_move_call (calls s') = filter is_move_call (calls s) @
       (if dry_run cfg then []
        else map (\<lambda>a. Files_move_v2 (fst a) (fst (snd a))) (chain cfg md f1 f2 f3))"
    unfolding s' by blast
  have "\<forall>a \<in> set (butlast (chain cfg md f1 f2 f3)). \<not> snd (snd a)"
    using chain_butlast_failed[OF ok] by blast
  moreover have "moves_succeed cfg bk \<longrightarrow> length (chain cfg md f1 f2 f3) \<le> 1"
    using suc chain_all_succeed[OF ok] by blast
  ultimately show ?thesis
    using att mv chain_shape[OF ok] by (intro exI[of _ "chain cfg md f1 f2 f3"]) blast
qed

text \<open>Three attempts when every move is refused, at most one when every move is accepted.\<close>

theorem move_attempts_per_entry_witness:
  "(\<exists>new. move_attempts (organize_file example_config moves_rejected
        (FileMetadata ''scan_2023_sync.pdf'' ''/scan_2023_sync.pdf'') init_organizer) = new \<and>
      length new = 3 \<and> (\<forall>a \<in> set (butlast new). \<not> snd (snd a))) \<and>
   moves_succeed example_config accepting \<and>
   (\<exists>new. move_attempts (organize_file example_config accepting
        (FileMetadata ''scan_2023_sync.pdf'' ''/scan_2023_sync.pdf'') init_organizer) = new \<and>
      length new \<le> 1)"
proof -
  have init: "move_attempts init_organizer = []"
    by (simp add: init_organizer_def observe_defs)
  from move_attempts_per_entry[OF refl, where cfg = example_config and bk = moves_rejected
      and md = "FileMetadata ''scan_2023_sync.pdf'' ''/scan_2023_sync.pdf''" and s = init_organizer]
  have "\<exists>new. move_attempts (organize_file example_config moves_rejected
        (FileMetadata ''scan_2023_sync.pdf'' ''/scan_2023_sync.pdf'') init_organizer) = new \<and>
      length new = 3 \<and> (\<forall>a \<in> set (butlast new). \<not> snd (snd a))"
    by (simp add: scan_2023_sync_moves_rejected observe_defs)
  moreover
  from move_attempts_per_entry[OF refl, where cfg = example_config and bk = accepting
      and md = "FileMetadata ''scan_2023_sync.pdf'' ''/scan_2023_sync.pdf''" and s = init_organizer]
    accepting_moves_succeed[of example_config]
  have "\<exists>new. move_attempts (organize_file example_config accepting
        (FileMetadata ''scan_2023_sync.pdf'' ''/scan_2023_sync.pdf'') init_organizer) = new \<and>
      length new \<le> 1"
    by (auto simp: init)
  ultimately show ?thesis
    using accepting_moves_succeed[of example_config] by blast
qed

section \<open>When ensuring a folder fails\<close>

lemma ensure_folder_exists_fails_iff:
  "\<not> dry_run cfg \<Longrightarrow>
   ensure_fails bk p s \<longleftrightarrow>
     last (log (ensure_folder_exists cfg bk p s)) \<in> {Error_creating_folder p, Error_checking_folder p}"
  by (cases "bk (calls s) (Files_get_metadata p)")
     (auto simp: ensure_fails_def ensure_folder_exists_def dbx_def logger_def Let_def)

lemma ensure_folder_exists_log: "prefix (log s) (log (ensure_folder_exists cfg bk p s))"
  by (simp add: ensure_folder_exists_def dbx_def logger_def Let_def)

lemma ensure_folder_exists_log_nonempty: "log (ensure_folder_exists cfg bk p s) \<noteq> []"
  by (simp add: ensure_folder_exists_def dbx_def logger_def Let_def)

lemma move_file_log: "prefix (log s) (log (snd (move_file cfg bk f t s)))"
  by (simp add: move_file_def dbx_def logger_def Let_def)

lemma organize_photo_log: "prefix (log s) (log (snd (organize_photo cfg bk p n (m, s))))"
proof -
  have "prefix (log s) (log (snd (move_file cfg bk f t
          (ensure_folder_exists cfg bk b (ensure_folder_exists cfg bk a s)))))" for f t a b
    by (meson ensure_folder_exists_log move_file_log prefix_order.trans)
  then show ?thesis
    by (auto simp: organize_photo_def Let_def split_def split: option.splits)
qed

lemma organize_document_log: "prefix (log s) (log (snd (organize_document cfg bk p n (m, s))))"
proof -
  have "prefix (log s) (log (snd (move_file cfg bk f t (ensure_folder_exists cfg bk a s))))" for f t a
    by (meson ensure_folder_exists_log move_file_log prefix_order.trans)
  then show ?thesis
    by (auto simp: organize_document_def Let_def split_def)
qed

lemma organize_temp_log: "prefix (log s) (log (snd (organize_temp cfg bk p n (m, s))))"
proof -
  have "prefix (log s) (log (snd (move_file cfg bk f t (ensure_folder_exists cfg bk a s))))" for f t a
    by (meson ensure_folder_exists_log move_file_log prefix_order.trans)
  then show ?thesis
    by (auto simp: organize_temp_def Let_def split_def)
qed

lemma last_in_set_of_prefix:
  "xs \<noteq> [] \<Longrightarrow> prefix xs ys \<Longrightarrow> last xs \<in> set ys"
  by (auto simp: prefix_def)


lemma organize_file_first_block_log:
  assumes "\<not> should_skip cfg (path_display md) (name md)"
  shows "photo_match cfg (name md) \<Longrightarrow>
           prefix (log (ensure_folder_exists cfg bk (''/'' @ folders_get cfg ''photos'' ''Photos Archive'') s))
             (log (organize_file cfg bk md s))"
    and "photo_match cfg (name md) \<Longrightarrow>
           prefix (log (ensure_folder_exists cfg bk
                     (''/'' @ folders_get cfg ''photos'' ''Photos Archive'' @ ''/'' @ year_of cfg (name md))
                     (ensure_folder_exists cfg bk (''/'' @ folders_get cfg ''photos'' ''Photos Archive'') s)))
             (log (organize_file cfg bk md s))"
    and "\<not> photo_match cfg (name md) \<Longrightarrow> is_document cfg (name md) \<Longrightarrow>
           prefix (log (ensure_folder_exists cfg bk (''/'' @ folders_get cfg ''documents'' ''Documents & Files'') s))
             (log (organize_file cfg bk md s))"
    and "\<not> photo_match cfg (name md) \<Longrightarrow> \<not> is_document cfg (name md) \<Longrightarrow> is_temp_file cfg (name md) \<Longrightarrow>
           prefix (log (ensure_folder_exists cfg bk (''/'' @ folders_get cfg ''temp'' ''Temp Files'') s))
             (log (organize_file cfg bk md s))"
proof -
  define p n where "p = path_display md" and "n = name md"
  have res: "organize_file cfg bk md s =
      snd (organize_temp cfg bk p n (organize_document cfg bk p n (organize_photo cfg bk p n (False, s))))"
    using assms by (simp add: organize_file_def Let_def p_def n_def)
  have tail: "prefix (log (snd r)) (log (snd (organize_temp cfg bk p n (organize_document cfg bk p n r))))" for r
    by (metis organize_document_log organize_temp_log prefix_order.trans prod.collapse)
  have tail2: "prefix (log (snd r)) (log (snd (organize_temp cfg bk p n r)))" for r
    by (metis organize_temp_log prod.collapse)
  {
    assume pm: "photo_match cfg n"
    let ?s1 = "ensure_folder_exists cfg bk (''/'' @ folders_get cfg ''photos'' ''Photos Archive'') s"
    let ?s2 = "ensure_folder_exists cfg bk
                     (''/'' @ folders_get cfg ''photos'' ''Photos Archive'' @ ''/'' @ year_of cfg n) ?s1"
    have "prefix (log ?s2) (log (snd (organize_photo cfg bk p n (False, s))))"
      using pm move_file_log[of ?s2 cfg bk]
      by (auto simp: organize_photo_def photo_match_def year_of_def Let_def split_def
          split: option.splits)
    then have 2: "prefix (log ?s2) (log (organize_file cfg bk md s))"
      unfolding res using tail prefix_order.trans by blast
    moreover have "prefix (log ?s1) (log ?s2)"
      by (rule ensure_folder_exists_log)
    ultimately have "prefix (log ?s1) (log (organize_file cfg bk md s))"
      using prefix_order.trans by blast
    note this 2
  }
  then show "photo_match cfg (name md) \<Longrightarrow>
           prefix (log (ensure_folder_exists cfg bk (''/'' @ folders_get cfg ''photos'' ''Photos Archive'') s))
             (log (organize_file cfg bk md s))"
    and "photo_match cfg (name md) \<Longrightarrow>
           prefix (log (ensure_folder_exists cfg bk
                     (''/'' @ folders_get cfg ''photos'' ''Photos Archive'' @ ''/'' @ year_of cfg (name md))
                     (ensure_folder_exists cfg bk (''/'' @ folders_get cfg ''photos'' ''Photos Archive'') s)))
             (log (organize_file cfg bk md s))"
    unfolding n_def by blast+
  {
    assume np: "\<not> photo_match cfg n" and d: "is_document cfg n"
    let ?s1 = "ensure_folder_exists cfg bk (''/'' @ folders_get cfg ''documents'' ''Documents & Files'') s"
    have a: "prefix (log ?s1) (log (snd (organize_document cfg bk p n (False, s))))"
      using d move_file_log[of ?s1 cfg bk]
      by (auto simp: organize_document_def Let_def split_def)
    have b: "prefix (log (snd (organize_document cfg bk p n (False, s))))
        (log (snd (organize_temp cfg bk p n (organize_document cfg bk p n (False, s)))))"
      by (rule tail2)
    have r1: "organize_photo cfg bk p n (False, s) = (False, s)"
      using np by (simp add: organize_photo_idle)
    from a b have "prefix (log ?s1)
        (log (snd (organize_temp cfg bk p n (organize_document cfg bk p n (False, s)))))"
      by (rule prefix_order.trans)
    then have "prefix (log ?s1) (log (organize_file cfg bk md s))"
      by (simp add: res r1)
  }
  then show "\<not> photo_match cfg (name md) \<Longrightarrow> is_document cfg (name md) \<Longrightarrow>
           prefix (log (ensure_folder_exists cfg bk (''/'' @ folders_get cfg ''documents'' ''Documents & Files'') s))
             (log (organize_file cfg bk md s))"
    unfolding n_def by blast
  {
    assume np: "\<not> photo_match cfg n" and nd: "\<not> is_document cfg n" and t: "is_temp_file cfg n"
    let ?s1 = "ensure_folder_exists cfg bk (''/'' @ folders_get cfg ''temp'' ''Temp Files'') s"
    have "prefix (log ?s1) (log (snd (organize_temp cfg bk p n (False, s))))"
      using t move_file_log[of ?s1 cfg bk]
      by (auto simp: organize_temp_def Let_def split_def)
    then have "prefix (log ?s1) (log (organize_file cfg bk md s))"
      unfolding res using np nd by (simp add: organize_photo_idle organize_document_idle)
  }
  then show "\<not> photo_match cfg (name md) \<Longrightarrow> \<not> is_document cfg (name md) \<Longrightarrow> is_temp_file cfg (name md) \<Longrightarrow>
           prefix (log (ensure_folder_exists cfg bk (''/'' @ folders_get cfg ''temp'' ''Temp Files'') s))
             (log (organize_file cfg bk md s))"
    unfolding n_def by blast
qed

text \<open>
  A document on a backend where no folder can be checked or created: the failure is logged
  and the move is made all the same.
\<close>

lemma report_folders_unavailable:
  "organize_file example_config folders_unavailable
     (FileMetadata ''report.pdf'' ''/report.pdf'') init_organizer =
   \<lparr>photos_moved = 0, documents_moved = 1, temp_moved = 0, errors = 0, skipped = 0,
    calls =
      [Files_get_metadata ''/Documents & Files'',
       Files_move_v2 ''/report.pdf'' ''/Documents & Files/report.pdf''],
    log =
      [Error_checking_folder ''/Documents & Files'',
       Moved ''/report.pdf'' ''/Documents & Files/report.pdf'']\<rparr>"
  by (simp add: eval_defs example_config_def folders_unavailable_def)

lemma report_ensure_fails:
  "ensure_fails folders_unavailable
     (''/'' @ folders_get example_config ''documents'' ''Documents & Files'') init_organizer"
  by (simp add: ensure_fails_def folders_unavailable_def)

text \<open>
  Claim C3, as stated, fails. \<open>_ensure_folder_exists\<close> catches the \<open>ApiError\<close>, logs it and
  returns nothing; \<open>_organize_file\<close> goes on to \<open>_move_file\<close>. For \<open>report.pdf\<close> the check
  of the documents folder fails, yet the move call is made (and here succeeds), the file is
  counted as moved, and the counter \<open>errors\<close> stays at 0.
\<close>

theorem ensure_failure_counterexample:
  "ensure_fails folders_unavailable ''/Documents & Files'' init_organizer \<and>
   log (ensure_folder_exists example_config folders_unavailable ''/Documents & Files''
      init_organizer) = [Error_checking_folder ''/Documents & Files''] \<and>
   calls (organize_file example_config folders_unavailable
      (FileMetadata ''report.pdf'' ''/report.pdf'') init_organizer) =
     [Files_get_metadata ''/Documents & Files'',
      Files_move_v2 ''/report.pdf'' ''/Documents & Files/report.pdf''] \<and>
   move_attempts (organize_file example_config folders_unavailable
      (FileMetadata ''report.pdf'' ''/report.pdf'') init_organizer) =
     [(''/report.pdf'', ''/Documents & Files/report.pdf'', True)] \<and>
   documents_moved (organize_file example_config folders_unavailable
      (FileMetadata ''report.pdf'' ''/report.pdf'') init_organizer) = 1 \<and>
   errors (organize_file example_config folders_unavailable
      (FileMetadata ''report.pdf'' ''/report.pdf'') init_organizer) = 0"
  by (simp add: report_folders_unavailable observe_defs)
     (simp add: ensure_fails_def folders_unavailable_def eval_defs example_config_def)

text \<open>
  Claim C3, amended. Outside a dry run, when ensuring the destination folder of the first
  matching category fails with an \<open>ApiError\<close> (for photos: the archive folder or the year
  folder), the failure is logged, and the move that depended on the folder is attempted
  all the same: the move call reaches the backend and the attempt is recorded. Processing
  continues with the next entry of the listing.
\<close>

theorem ensure_failure_move_still_attempted:
  assumes live: "\<not> dry_run cfg"
    and md: "md = FileMetadata n p"
    and s': "s' = organize_file cfg bk md s"
    and ns: "\<not> should_skip cfg p n"
  shows
    "(photo_match cfg n \<and>
      (ensure_fails bk (''/'' @ folders_get cfg ''photos'' ''Photos Archive'') s \<or>
       ensure_fails bk (''/'' @ folders_get cfg ''photos'' ''Photos Archive'' @ ''/'' @ year_of cfg n)
         (ensure_folder_exists cfg bk (''/'' @ folders_get cfg ''photos'' ''Photos Archive'') s)) \<longrightarrow>
        (\<exists>d. (Error_checking_folder d \<in> set (log s') \<or> Error_creating_folder d \<in> set (log s'))) \<and>
        Files_move_v2 p (photo_path cfg (year_of cfg n) n) \<in> set (calls s') \<and>
        (\<exists>ok rest. move_attempts s' =
            move_attempts s @ (p, photo_path cfg (year_of cfg n) n, ok) # rest)) \<and>
     (\<not> photo_match cfg n \<and> is_document cfg n \<and>
      ensure_fails bk (''/'' @ folders_get cfg ''documents'' ''Documents & Files'') s \<longrightarrow>
        (\<exists>d. (Error_checking_folder d \<in> set (log s') \<or> Error_creating_folder d \<in> set (log s'))) \<and>
        Files_move_v2 p (document_path cfg n) \<in> set (calls s') \<and>
        (\<exists>ok rest. move_attempts s' = move_attempts s @ (p, document_path cfg n, ok) # rest)) \<and>
     (\<not> photo_match cfg n \<and> \<not> is_document cfg n \<and> is_temp_file cfg n \<and>
      ensure_fails bk (''/'' @ folders_get cfg ''temp'' ''Temp Files'') s \<longrightarrow>
        (\<exists>d. (Error_checking_folder d \<in> set (log s') \<or> Error_creating_folder d \<in> set (log s'))) \<and>
        Files_move_v2 p (temp_path cfg n) \<in> set (calls s') \<and>
        (\<exists>ok. move_attempts s' = move_attempts s @ [(p, temp_path cfg n, ok)])) \<and>
     organize_entries cfg bk (md # entries) s = organize_entries cfg bk entries s'"
proof -
  have pn: "path_display md = p" "name md = n"
    by (simp_all add: md)
  have ns': "\<not> should_skip cfg (path_display md) (name md)"
    using ns by (simp add: pn)
  from organize_file_not_skipped[OF ns', of bk s]
  obtain f1 f2 f3 where ok: "flags_ok cfg md f1 f2 f3"
    and att: "move_attempts s' = move_attempts s @ chain cfg md f1 f2 f3"
    and mv: "filter is_move_call (calls s') = filter is_move_call (calls s) @
        map (\<lambda>a. Files_move_v2 (fst a) (fst (snd a))) (chain cfg md f1 f2 f3)"
    unfolding s' using live by auto
  have issued: "Files_move_v2 (fst a) (fst (snd a)) \<in> set (calls s')"
    if "a \<in> set (chain cfg md f1 f2 f3)" for a
  proof -
    from that have "Files_move_v2 (fst a) (fst (snd a)) \<in> set (filter is_move_call (calls s'))"
      unfolding mv by auto
    then show ?thesis by simp
  qed
  have logged: "\<exists>d. (Error_checking_folder d \<in> set (log s') \<or> Error_creating_folder d \<in> set (log s'))"
    if "ensure_fails bk d t" "prefix (log (ensure_folder_exists cfg bk d t)) (log s')" for d t
  proof -
    from that(1) live have "last (log (ensure_folder_exists cfg bk d t))
        \<in> {Error_creating_folder d, Error_checking_folder d}"
      by (simp add: ensure_folder_exists_fails_iff)
    moreover have "last (log (ensure_folder_exists cfg bk d t)) \<in> set (log s')"
      using ensure_folder_exists_log_nonempty that(2) by (rule last_in_set_of_prefix)
    ultimately show ?thesis by auto
  qed
  note pre = organize_file_first_block_log[OF ns', of bk s, unfolded pn, folded s']
  have photo: "(\<exists>d. (Error_checking_folder d \<in> set (log s') \<or> Error_creating_folder d \<in> set (log s'))) \<and>
        Files_move_v2 p (photo_path cfg (year_of cfg n) n) \<in> set (calls s') \<and>
        (\<exists>ok rest. move_attempts s' =
            move_attempts s @ (p, photo_path cfg (year_of cfg n) n, ok) # rest)"
    if pm: "photo_match cfg n"
      and f: "ensure_fails bk (''/'' @ folders_get cfg ''photos'' ''Photos Archive'') s \<or>
       ensure_fails bk (''/'' @ folders_get cfg ''photos'' ''Photos Archive'' @ ''/'' @ year_of cfg n)
         (ensure_folder_exists cfg bk (''/'' @ folders_get cfg ''photos'' ''Photos Archive'') s)"
  proof -
    from chain_photo[OF ok] pm obtain rest where
      c: "chain cfg md f1 f2 f3 = (p, photo_path cfg (year_of cfg n) n, f1) # rest"
      by (auto simp: pn)
    have "\<exists>d. (Error_checking_folder d \<in> set (log s') \<or> Error_creating_folder d \<in> set (log s'))"
      using f logged pre(1)[OF pm] pre(2)[OF pm] by blast
    moreover have "Files_move_v2 p (photo_path cfg (year_of cfg n) n) \<in> set (calls s')"
      using issued[of "(p, photo_path cfg (year_of cfg n) n, f1)"] c by simp
    ultimately show ?thesis
      using att c by auto
  qed
  have document: "(\<exists>d. (Error_checking_folder d \<in> set (log s') \<or> Error_creating_folder d \<in> set (log s'))) \<and>
        Files_move_v2 p (document_path cfg n) \<in> set (calls s') \<and>
        (\<exists>ok rest. move_attempts s' = move_attempts s @ (p, document_path cfg n, ok) # rest)"
    if np: "\<not> photo_match cfg n" and d: "is_document cfg n"
      and f: "ensure_fails bk (''/'' @ folders_get cfg ''documents'' ''Documents & Files'') s"
  proof -
    from chain_document[OF ok] np d obtain rest where
      c: "chain cfg md f1 f2 f3 = (p, document_path cfg n, f2) # rest"
      by (auto simp: pn)
    have "\<exists>d. (Error_checking_folder d \<in> set (log s') \<or> Error_creating_folder d \<in> set (log s'))"
      using f logged pre(3)[OF np d] by blast
    moreover have "Files_move_v2 p (document_path cfg n) \<in> set (calls s')"
      using issued[of "(p, document_path cfg n, f2)"] c by simp
    ultimately show ?thesis
      using att c by auto
  qed
  have temp: "(\<exists>d. (Error_checking_folder d \<in> set (log s') \<or> Error_creating_folder d \<in> set (log s'))) \<and>
        Files_move_v2 p (temp_path cfg n) \<in> set (calls s') \<and>
        (\<exists>ok. move_attempts s' = move_attempts s @ [(p, temp_path cfg n, ok)])"
    if np: "\<not> photo_match cfg n" and nd: "\<not> is_document cfg n" and t: "is_temp_file cfg n"
      and f: "ensure_fails bk (''/'' @ folders_get cfg ''temp'' ''Temp Files'') s"
  proof -
    from chain_temp[OF ok] np nd t have
      c: "chain cfg md f1 f2 f3 = [(p, temp_path cfg n, f3)]"
      by (auto simp: pn)
    have "\<exists>d. (Error_checking_folder d \<in> set (log s') \<or> Error_creating_folder d \<in> set (log s'))"
      using f logged pre(4)[OF np nd t] by blast
    moreover have "Files_move_v2 p (temp_path cfg n) \<in> set (calls s')"
      using issued[of "(p, temp_path cfg n, f3)"] c by simp
    ultimately show ?thesis
      using att c by auto
  qed
  have continue: "organize_entries cfg bk (md # entries) s = organize_entries cfg bk entries s'"
    by (simp add: md s')
  show ?thesis
    using photo document temp continue by blast
qed

theorem ensure_failure_move_still_attempted_witness:
  "\<not> dry_run example_config \<and>
   \<not> should_skip example_config ''/report.pdf'' ''report.pdf'' \<and>
   \<not> photo_match example_config ''report.pdf'' \<and> is_document example_config ''report.pdf'' \<and>
   ensure_fails folders_unavailable
     (''/'' @ folders_get example_config ''documents'' ''Documents & Files'') init_organizer \<and>
   Files_move_v2 ''/report.pdf'' (document_path example_config ''report.pdf'')
     \<in> set (calls (organize_file example_config folders_unavailable
          (FileMetadata ''report.pdf'' ''/report.pdf'') init_organizer))"
proof -
  have live: "\<not> dry_run example_config"
    by (simp add: example_config_def)
  from ensure_failure_move_still_attempted[OF live refl refl report_rules(1),
      where bk = folders_unavailable and s = init_organizer]
    report_rules report_ensure_fails
  have "Files_move_v2 ''/report.pdf'' (document_path example_config ''report.pdf'')
     \<in> set (calls (organize_file example_config folders_unavailable
          (FileMetadata ''report.pdf'' ''/report.pdf'') init_organizer))"
    by blast
  then show ?thesis
    using live report_rules report_ensure_fails by blast
qed


section \<open>A folder mapping without an entry for a category\<close>

lemma list_folder_continue_returns:
  "list_all is_page pages \<Longrightarrow> fst (list_folder_continue cfg bk pages s) = Returned"
proof (induction pages arbitrary: s)
  case Nil
  then show ?case by simp
next
  case (Cons r pages)
  then show ?case
    by (cases r) (simp_all add: is_page_def)
qed

text \<open>A photo processed with a configuration whose \<open>folders\<close> dictionary is empty.\<close>

lemma vacation_no_folders:
  "main (Parsed no_folders_config) accepting
     (ListFolderResult [FileMetadata ''vacation_2023_beach.jpg'' ''/vacation_2023_beach.jpg'']) [] =
   (Returned,
    \<lparr>photos_moved = 1, documents_moved = 0, temp_moved = 0, errors = 0, skipped = 0,
     calls =
       [Files_get_metadata ''/Photos Archive'',
        Files_get_metadata ''/Photos Archive/2023'',
        Files_move_v2 ''/vacation_2023_beach.jpg'' ''/Photos Archive/2023/vacation_2023_beach.jpg''],
     log =
       [Starting_scan [],
        Folder_already_exists ''/Photos Archive'',
        Folder_already_exists ''/Photos Archive/2023'',
        Moved ''/vacation_2023_beach.jpg'' ''/Photos Archive/2023/vacation_2023_beach.jpg'']\<rparr>)"
  by (simp add: main_def load_config_def scan_and_organize_def eval_defs no_folders_config_def
      example_config_def accepting_def)

lemma vacation_no_folders_rules:
  "\<not> should_skip no_folders_config ''/vacation_2023_beach.jpg'' ''vacation_2023_beach.jpg''"
  "photo_match no_folders_config ''vacation_2023_beach.jpg''"
  "year_of no_folders_config ''vacation_2023_beach.jpg'' = ''2023''"
  "folders no_folders_config ''photos'' = None"
  by (simp_all add: eval_defs match_defs no_folders_config_def example_config_def)

text \<open>
  Claim C4, as stated, fails. With the photo rule enabled and no entry for \<open>photos\<close> in the
  folder mapping, the run is not aborted: the configuration loads, the listing is
  processed, and the photo is moved under the default folder name \<open>Photos Archive\<close>.
\<close>

theorem missing_folder_counterexample:
  "photos_enabled no_folders_config \<and> folders no_folders_config ''photos'' = None \<and>
   fst (main (Parsed no_folders_config) accepting
     (ListFolderResult [FileMetadata ''vacation_2023_beach.jpg'' ''/vacation_2023_beach.jpg'']) [])
     = Returned \<and>
   photos_moved (snd (main (Parsed no_folders_config) accepting
     (ListFolderResult [FileMetadata ''vacation_2023_beach.jpg'' ''/vacation_2023_beach.jpg'']) []))
     = 1 \<and>
   move_attempts (snd (main (Parsed no_folders_config) accepting
     (ListFolderResult [FileMetadata ''vacation_2023_beach.jpg'' ''/vacation_2023_beach.jpg'']) []))
     = [(''/vacation_2023_beach.jpg'', ''/Photos Archive/2023/vacation_2023_beach.jpg'', True)]"
  by (simp add: vacation_no_folders observe_defs)
     (simp add: no_folders_config_def example_config_def)

text \<open>
  Claim C4, amended. A folder mapping that lacks the entry of a category is not an error.
  Loading a parsed configuration never aborts the run, whatever its folder mapping: \<open>main\<close>
  goes on to scan, and returns normally when no listing call fails. For a category without
  an entry the code's default name is the destination root: \<open>Photos Archive\<close>,
  \<open>Documents & Files\<close> or \<open>Temp Files\<close>.
\<close>

theorem missing_folder_uses_default:
  "main (Parsed cfg) bk first pages = scan_and_organize cfg bk [] first pages init_organizer \<and>
   (list_all is_page (first # pages) \<longrightarrow> fst (main (Parsed cfg) bk first pages) = Returned) \<and>
   (folders cfg ''photos'' = None \<and> \<not> should_skip cfg (path_display md) (name md) \<and>
    photo_match cfg (name md) \<longrightarrow>
      decision s (organize_file cfg bk md s) =
        MoveTo (''/Photos Archive/'' @ year_of cfg (name md) @ ''/'' @ name md)) \<and>
   (folders cfg ''documents'' = None \<and> \<not> should_skip cfg (path_display md) (name md) \<and>
    \<not> photo_match cfg (name md) \<and> is_document cfg (name md) \<longrightarrow>
      decision s (organize_file cfg bk md s) = MoveTo (''/Documents & Files/'' @ name md)) \<and>
   (folders cfg ''temp'' = None \<and> \<not> should_skip cfg (path_display md) (name md) \<and>
    \<not> photo_match cfg (name md) \<and> \<not> is_document cfg (name md) \<and> is_temp_file cfg (name md) \<longrightarrow>
      decision s (organize_file cfg bk md s) = MoveTo (''/Temp Files/'' @ name md))"
proof -
  have run: "main (Parsed cfg) bk first pages = scan_and_organize cfg bk [] first pages init_organizer"
    by (simp add: main_def load_config_def)
  have "fst (main (Parsed cfg) bk first pages) = Returned" if "list_all is_page (first # pages)"
    unfolding run scan_and_organize_def Let_def using that by (rule list_folder_continue_returns)
  then show ?thesis
    using run
    by (simp add: organize_file_decision route_def photo_path_def document_path_def temp_path_def
        folders_get_def)
qed

theorem missing_folder_uses_default_witness:
  "folders no_folders_config ''photos'' = None \<and>
   \<not> should_skip no_folders_config ''/vacation_2023_beach.jpg'' ''vacation_2023_beach.jpg'' \<and>
   photo_match no_folders_config ''vacation_2023_beach.jpg'' \<and>
   list_all is_page [ListFolderResult [FileMetadata ''vacation_2023_beach.jpg'' ''/vacation_2023_beach.jpg'']] \<and>
   fst (main (Parsed no_folders_config) accepting
     (ListFolderResult [FileMetadata ''vacation_2023_beach.jpg'' ''/vacation_2023_beach.jpg'']) [])
     = Returned \<and>
   decision init_organizer (organize_file no_folders_config accepting
     (FileMetadata ''vacation_2023_beach.jpg'' ''/vacation_2023_beach.jpg'') init_organizer) =
     MoveTo ''/Photos Archive/2023/vacation_2023_beach.jpg''"
proof -
  have pg: "list_all is_page
      [ListFolderResult [FileMetadata ''vacation_2023_beach.jpg'' ''/vacation_2023_beach.jpg'']]"
    by (simp add: is_page_def)
  note inst = missing_folder_uses_default[where cfg = no_folders_config and bk = accepting
      and first = "ListFolderResult [FileMetadata ''vacation_2023_beach.jpg'' ''/vacation_2023_beach.jpg'']"
      and pages = "[]" and s = init_organizer
      and md = "FileMetadata ''vacation_2023_beach.jpg'' ''/vacation_2023_beach.jpg''"]
  from inst pg have "fst (main (Parsed no_folders_config) accepting
     (ListFolderResult [FileMetadata ''vacation_2023_beach.jpg'' ''/vacation_2023_beach.jpg'']) [])
     = Returned"
    by blast
  moreover from inst vacation_no_folders_rules
  have "decision init_organizer (organize_file no_folders_config accepting
     (FileMetadata ''vacation_2023_beach.jpg'' ''/vacation_2023_beach.jpg'') init_organizer) =
     MoveTo ''/Photos Archive/2023/vacation_2023_beach.jpg''"
    by auto
  ultimately show ?thesis
    using pg vacation_no_folders_rules by blast
qed

section \<open>Dry runs\<close>

lemma chain_flags_when_all_succeed:
  "flags_ok cfg md f1 f2 f3 \<Longrightarrow> list_all (\<lambda>a. snd (snd a)) (chain cfg md f1 f2 f3) \<Longrightarrow>
   f1 = photo_match cfg (name md) \<and>
   f2 = (photo_match cfg (name md) \<or> is_document cfg (name md)) \<and>
   f3 = (photo_match cfg (name md) \<or> is_document cfg (name md) \<or> is_temp_file cfg (name md))"
  by (cases f1; cases f2; cases f3; cases "photo_match cfg (name md)";
      cases "is_document cfg (name md)"; cases "is_temp_file cfg (name md)")
     (simp_all add: chain_def flags_ok_def)

lemma organize_file_moves_succeed:
  assumes "moves_succeed cfg bk" and ns: "\<not> should_skip cfg (path_display md) (name md)"
  defines "pm \<equiv> photo_match cfg (name md)"
    and "d \<equiv> is_document cfg (name md)"
    and "t \<equiv> is_temp_file cfg (name md)"
  shows "move_attempts (organize_file cfg bk md s) =
           move_attempts s @ chain cfg md pm (pm \<or> d) (pm \<or> d \<or> t) \<and>
         stats (organize_file cfg bk md s) =
           (photos_moved s + (if pm then 1 else 0),
            documents_moved s + (if d \<and> \<not> pm then 1 else 0),
            temp_moved s + (if t \<and> \<not> (pm \<or> d) then 1 else 0),
            errors s, skipped s)"
proof -
  from organize_file_not_skipped[OF ns, of bk s] assms(1)
  obtain f1 f2 f3 where ok: "flags_ok cfg md f1 f2 f3"
    and att: "move_attempts (organize_file cfg bk md s) = move_attempts s @ chain cfg md f1 f2 f3"
    and ph: "photos_moved (organize_file cfg bk md s) = photos_moved s + (if f1 then 1 else 0)"
    and doc: "documents_moved (organize_file cfg bk md s) =
                documents_moved s + (if f2 \<and> \<not> f1 then 1 else 0)"
    and tmp: "temp_moved (organize_file cfg bk md s) = temp_moved s + (if f3 \<and> \<not> f2 then 1 else 0)"
    and err: "errors (organize_file cfg bk md s) =
       errors s + int (length (filter (\<lambda>a. \<not> snd (snd a)) (chain cfg md f1 f2 f3)))"
    and sk: "skipped (organize_file cfg bk md s) = skipped s"
    and suc: "list_all (\<lambda>a. snd (snd a)) (chain cfg md f1 f2 f3)"
    by blast
  from chain_flags_when_all_succeed[OF ok suc]
  have f: "f1 = pm" "f2 = (pm \<or> d)" "f3 = (pm \<or> d \<or> t)"
    by (simp_all add: pm_def d_def t_def)
  have "filter (\<lambda>a. \<not> snd (snd a)) (chain cfg md f1 f2 f3) = []"
    using suc by (simp add: filter_empty_conv list_all_iff)
  with err have err': "errors (organize_file cfg bk md s) = errors s"
    by simp
  show ?thesis
    using att ph doc tmp err' sk unfolding f by (auto simp: stats_def)
qed

lemma rules_ignore_dry_run:
  "should_skip (cfg\<lparr>dry_run := b\<rparr>) p n = should_skip cfg p n"
  "photo_match (cfg\<lparr>dry_run := b\<rparr>) n = photo_match cfg n"
  "is_document (cfg\<lparr>dry_run := b\<rparr>) n = is_document cfg n"
  "is_temp_file (cfg\<lparr>dry_run := b\<rparr>) n = is_temp_file cfg n"
  "chain (cfg\<lparr>dry_run := b\<rparr>) md f1 f2 f3 = chain cfg md f1 f2 f3"
  by (simp_all add: should_skip_def photo_match_def extract_year_from_filename_def is_document_def
      is_temp_file_def chain_def year_of_def photo_path_def document_path_def temp_path_def
      folders_get_def)

lemma stats_fields:
  "stats s = stats t \<longleftrightarrow>
     photos_moved s = photos_moved t \<and> documents_moved s = documents_moved t \<and>
     temp_moved s = temp_moved t \<and> errors s = errors t \<and> skipped s = skipped t"
  by (simp add: stats_def)

lemma organize_file_dry_run_as_accepted:
  assumes dry: "dry_run cfg" and acc: "\<forall>h f t. bk' h (Files_move_v2 f t) = Success"
    and eq: "stats s = stats t" "move_attempts s = move_attempts t"
  shows "stats (organize_file cfg bk md s) = stats (organize_file (cfg\<lparr>dry_run := False\<rparr>) bk' md t) \<and>
         move_attempts (organize_file cfg bk md s) =
           move_attempts (organize_file (cfg\<lparr>dry_run := False\<rparr>) bk' md t)"
proof (cases "should_skip cfg (path_display md) (name md)")
  case True
  then have "should_skip (cfg\<lparr>dry_run := False\<rparr>) (path_display md) (name md)"
    by (simp add: rules_ignore_dry_run)
  then show ?thesis
    using True eq
    by (simp add: organize_file_skipped stats_def logger_fields move_attempts_update
        move_attempts_logger)
next
  case False
  then have ns: "\<not> should_skip (cfg\<lparr>dry_run := False\<rparr>) (path_display md) (name md)"
    by (simp add: rules_ignore_dry_run)
  have m1: "moves_succeed cfg bk"
    using dry by (simp add: moves_succeed_def)
  have m2: "moves_succeed (cfg\<lparr>dry_run := False\<rparr>) bk'"
    using acc by (simp add: moves_succeed_def)
  show ?thesis
    using organize_file_moves_succeed[OF m1 False, of s]
      organize_file_moves_succeed[OF m2 ns, of t] eq
    by (simp add: rules_ignore_dry_run stats_def)
qed

lemma organize_file_dry_run_calls:
  "dry_run cfg \<Longrightarrow> calls (organize_file cfg bk md s) = calls s"
proof (cases "should_skip cfg (path_display md) (name md)")
  case True
  then show ?thesis by (simp add: organize_file_skipped logger_fields)
next
  case False
  assume "dry_run cfg"
  with organize_file_not_skipped[OF False, of bk s] show ?thesis by blast
qed

lemma organize_entries_dry_run_calls:
  "dry_run cfg \<Longrightarrow> calls (organize_entries cfg bk entries s) = calls s"
  by (induction cfg bk entries s rule: organize_entries.induct)
     (simp_all add: organize_file_dry_run_calls)

lemma list_folder_continue_dry_run_calls:
  "dry_run cfg \<Longrightarrow> calls (snd (list_folder_continue cfg bk pages s)) = calls s"
  by (induction cfg bk pages s rule: list_folder_continue.induct)
     (simp_all add: organize_entries_dry_run_calls logger_fields)

lemma organize_entries_dry_run_as_accepted:
  assumes dry: "dry_run cfg" and acc: "\<forall>h f t. bk' h (Files_move_v2 f t) = Success"
  shows "stats s = stats t \<Longrightarrow> move_attempts s = move_attempts t \<Longrightarrow>
     stats (organize_entries cfg bk entries s) =
       stats (organize_entries (cfg\<lparr>dry_run := False\<rparr>) bk' entries t) \<and>
     move_attempts (organize_entries cfg bk entries s) =
       move_attempts (organize_entries (cfg\<lparr>dry_run := False\<rparr>) bk' entries t)"
proof (induction entries arbitrary: s t)
  case Nil
  then show ?case by simp
next
  case (Cons e entries)
  show ?case
  proof (cases e)
    case (FileMetadata n p)
    from organize_file_dry_run_as_accepted[OF dry acc Cons.prems, of bk e]
    show ?thesis
      unfolding FileMetadata using Cons.IH by simp
  next
    case (FolderMetadata n p)
    then show ?thesis using Cons by simp
  qed
qed

lemma list_folder_continue_dry_run_as_accepted:
  assumes dry: "dry_run cfg" and acc: "\<forall>h f t. bk' h (Files_move_v2 f t) = Success"
  shows "stats s = stats t \<Longrightarrow> move_attempts s = move_attempts t \<Longrightarrow>
     fst (list_folder_continue cfg bk pages s) =
       fst (list_folder_continue (cfg\<lparr>dry_run := False\<rparr>) bk' pages t) \<and>
     stats (snd (list_folder_continue cfg bk pages s)) =
       stats (snd (list_folder_continue (cfg\<lparr>dry_run := False\<rparr>) bk' pages t)) \<and>
     move_attempts (snd (list_folder_continue cfg bk pages s)) =
       move_attempts (snd (list_folder_continue (cfg\<lparr>dry_run := False\<rparr>) bk' pages t))"
proof (induction pages arbitrary: s t)
  case Nil
  then show ?case by simp
next
  case (Cons r pages)
  show ?case
  proof (cases r)
    case ListFolder_ApiError
    then show ?thesis
      using Cons.prems
      by (simp add: stats_def logger_fields move_attempts_logger)
  next
    case (ListFolderResult entries)
    from organize_entries_dry_run_as_accepted[OF dry acc Cons.prems, of bk entries]
    show ?thesis
      unfolding ListFolderResult using Cons.IH by simp
  qed
qed

text \<open>
  Claim C9. In a dry run no call is made on the storage backend: not by
  \<open>_organize_file\<close> for any entry, and not by the whole of \<open>scan_and_organize\<close>, whose
  sequence of backend calls at the end is the one at the start. Routing is still computed
  and counted: the run ends the same way, with the same counters and the same move
  attempts (source, destination, reported success) as a real run of the same configuration
  on a backend that accepts every move.
\<close>

theorem dry_run_leaves_backend_untouched:
  assumes dry: "dry_run cfg"
  shows "calls (organize_file cfg bk md s) = calls s \<and>
     calls (snd (scan_and_organize cfg bk path first pages s)) = calls s \<and>
     (\<forall>bk'. (\<forall>h f t. bk' h (Files_move_v2 f t) = Success) \<longrightarrow>
        fst (scan_and_organize cfg bk path first pages s) =
          fst (scan_and_organize (cfg\<lparr>dry_run := False\<rparr>) bk' path first pages s) \<and>
        stats (snd (scan_and_organize cfg bk path first pages s)) =
          stats (snd (scan_and_organize (cfg\<lparr>dry_run := False\<rparr>) bk' path first pages s)) \<and>
        move_attempts (snd (scan_and_organize cfg bk path first pages s)) =
          move_attempts (snd (scan_and_organize (cfg\<lparr>dry_run := False\<rparr>) bk' path first pages s)))"
proof -
  have "calls (snd (scan_and_organize cfg bk path first pages s)) = calls s"
    using dry
    by (simp add: scan_and_organize_def Let_def list_folder_continue_dry_run_calls logger_fields)
  moreover have "fst (scan_and_organize cfg bk path first pages s) =
          fst (scan_and_organize (cfg\<lparr>dry_run := False\<rparr>) bk' path first pages s) \<and>
        stats (snd (scan_and_organize cfg bk path first pages s)) =
          stats (snd (scan_and_organize (cfg\<lparr>dry_run := False\<rparr>) bk' path first pages s)) \<and>
        move_attempts (snd (scan_and_organize cfg bk path first pages s)) =
          move_attempts (snd (scan_and_organize (cfg\<lparr>dry_run := False\<rparr>) bk' path first pages s))"
    if acc: "\<forall>h f t. bk' h (Files_move_v2 f t) = Success" for bk'
  proof -
    let ?s = "logger Running_in_dry_run_mode (logger (Starting_scan path) s)"
    let ?t = "logger (Starting_scan path) s"
    have "stats ?s = stats ?t" "move_attempts ?s = move_attempts ?t"
      by (simp_all add: stats_def logger_fields move_attempts_logger)
    from list_folder_continue_dry_run_as_accepted[OF dry acc this, of bk "first # pages"]
    show ?thesis
      using dry by (simp add: scan_and_organize_def Let_def)
  qed
  ultimately show ?thesis
    using organize_file_dry_run_calls[OF dry] by blast
qed

text \<open>
  A dry run over the example listing on a backend that would refuse every move: no call is
  made, and the counters are those of a real run on an accepting backend.
\<close>

lemma example_listing_dry_run:
  "scan_and_organize dry_run_config moves_rejected [] (ListFolderResult example_listing) []
     init_organizer =
   (Returned,
    \<lparr>photos_moved = 1, documents_moved = 1, temp_moved = 0, errors = 0, skipped = 1,
     calls = [],
     log =
       [Starting_scan [],
        Running_in_dry_run_mode,
        Would_ensure_folder ''/Photos Archive'',
        Would_ensure_folder ''/Photos Archive/2023'',
        Would_move ''/vacation_2023_beach.jpg'' ''/Photos Archive/2023/vacation_2023_beach.jpg'',
        Would_ensure_folder ''/Documents & Files'',
        Would_move ''/report.pdf'' ''/Documents & Files/report.pdf'',
        Skipping ''/.dropbox'']\<rparr>)"
  by (simp add: scan_and_organize_def eval_defs dry_run_config_def example_listing_def
      example_config_def)

theorem dry_run_leaves_backend_untouched_witness:
  "dry_run dry_run_config \<and>
   (\<forall>h f t. accepting h (Files_move_v2 f t) = Success) \<and>
   calls (snd (scan_and_organize dry_run_config moves_rejected []
      (ListFolderResult example_listing) [] init_organizer)) = [] \<and>
   stats (snd (scan_and_organize (dry_run_config\<lparr>dry_run := False\<rparr>) accepting []
      (ListFolderResult example_listing) [] init_organizer)) = (1, 1, 0, 0, 1)"
proof -
  have dry: "dry_run dry_run_config"
    by (simp add: dry_run_config_def)
  have acc: "\<forall>h f t. accepting h (Files_move_v2 f t) = Success"
    by (simp add: accepting_def)
  note inst = dry_run_leaves_backend_untouched[OF dry, where bk = moves_rejected and path = "[]"
      and first = "ListFolderResult example_listing" and pages = "[]" and s = init_organizer]
  from inst have "calls (snd (scan_and_organize dry_run_config moves_rejected []
      (ListFolderResult example_listing) [] init_organizer)) = calls init_organizer"
    by blast
  then have c: "calls (snd (scan_and_organize dry_run_config moves_rejected []
      (ListFolderResult example_listing) [] init_organizer)) = []"
    by (simp add: init_organizer_def)
  from inst acc have eq: "stats (snd (scan_and_organize dry_run_config moves_rejected []
      (ListFolderResult example_listing) [] init_organizer)) =
    stats (snd (scan_and_organize (dry_run_config\<lparr>dry_run := False\<rparr>) accepting []
      (ListFolderResult example_listing) [] init_organizer))"
    by blast
  have st: "stats (snd (scan_and_organize dry_run_config moves_rejected []
      (ListFolderResult example_listing) [] init_organizer)) = (1, 1, 0, 0, 1)"
    by (simp add: example_listing_dry_run stats_def)
  have "stats (snd (scan_and_organize (dry_run_config\<lparr>dry_run := False\<rparr>) accepting []
      (ListFolderResult example_listing) [] init_organizer)) = (1, 1, 0, 0, 1)"
    using eq st by simp
  then show ?thesis
    using dry acc c by blast
qed

section \<open>Year extraction and the photo rule\<close>

lemma matches_20dd_Cons:
  "matches_20dd y \<longleftrightarrow> (\<exists>c d. y = [CHR ''2'', CHR ''0'', c, d] \<and> is_digit c \<and> is_digit d)"
proof
  assume m: "matches_20dd y"
  then obtain a b c d where y: "y = [a, b, c, d]"
    by (auto simp: matches_20dd_def length_Suc_conv numeral_eq_Suc)
  with m show "\<exists>c d. y = [CHR ''2'', CHR ''0'', c, d] \<and> is_digit c \<and> is_digit d"
    by (simp add: matches_20dd_def)
next
  assume "\<exists>c d. y = [CHR ''2'', CHR ''0'', c, d] \<and> is_digit c \<and> is_digit d"
  then show "matches_20dd y"
    by (auto simp: matches_20dd_def)
qed

lemma re_search_year_short: "length s < 4 \<Longrightarrow> re_search_year s = None"
  by (induction s rule: re_search_year.induct) simp_all

lemma re_search_year_Cons:
  "re_search_year (x # s) =
     (if matches_20dd (take 4 (x # s)) then Some (take 4 (x # s)) else re_search_year s)"
proof (cases "length s < 3")
  case True
  then have "length (x # s) < 4" by simp
  then have "re_search_year (x # s) = None" "\<not> matches_20dd (take 4 (x # s))"
    by (simp_all add: re_search_year_short matches_20dd_def)
  moreover from True have "re_search_year s = None"
    by (simp add: re_search_year_short)
  ultimately show ?thesis by simp
next
  case False
  then obtain b c d rest where s: "s = b # c # d # rest"
    by (cases s; cases "tl s"; cases "tl (tl s)") auto
  show ?thesis
    unfolding s by (auto simp: matches_20dd_def)
qed

lemma re_search_year_None:
  "re_search_year s = None \<Longrightarrow> s = a @ y @ b \<Longrightarrow> \<not> matches_20dd y"
proof (induction s arbitrary: a)
  case Nil
  then show ?case by (simp add: matches_20dd_def)
next
  case (Cons x s)
  from Cons.prems(1) have nm: "\<not> matches_20dd (take 4 (x # s))" and rec: "re_search_year s = None"
    by (simp_all add: re_search_year_Cons split: if_splits)
  show ?case
  proof (cases a)
    case Nil
    show ?thesis
    proof
      assume m: "matches_20dd y"
      then have "length y = 4" by (simp add: matches_20dd_def)
      with Cons.prems(2) Nil have "take 4 (x # s) = y" by simp
      with nm m show False by simp
    qed
  next
    case (Cons x' a')
    with Cons.prems(2) have "s = a' @ y @ b" by simp
    with rec show ?thesis by (rule Cons.IH)
  qed
qed

lemma re_search_year_Some:
  "re_search_year s = Some y \<Longrightarrow>
   \<exists>a b. s = a @ y @ b \<and> matches_20dd y \<and>
     (\<forall>a' y' b'. s = a' @ y' @ b' \<and> matches_20dd y' \<longrightarrow> length a \<le> length a')"
proof (induction s)
  case Nil
  then show ?case by simp
next
  case (Cons x s)
  show ?case
  proof (cases "matches_20dd (take 4 (x # s))")
    case True
    with Cons.prems have y: "y = take 4 (x # s)"
      by (simp add: re_search_year_Cons)
    have "x # s = [] @ y @ drop 4 (x # s)"
      unfolding y by simp
    moreover have "matches_20dd y"
      using True y by simp
    ultimately show ?thesis
      by (metis le0 list.size(3))
  next
    case False
    with Cons.prems have "re_search_year s = Some y"
      by (simp add: re_search_year_Cons)
    with Cons.IH obtain a b where s: "s = a @ y @ b" and m: "matches_20dd y"
      and least: "\<And>a' y' b'. s = a' @ y' @ b' \<Longrightarrow> matches_20dd y' \<Longrightarrow> length a \<le> length a'"
      by blast
    have "length (x # a) \<le> length a'" if d: "x # s = a' @ y' @ b'" and m': "matches_20dd y'"
      for a' y' b'
    proof (cases a')
      case Nil
      from m' have "length y' = 4" by (simp add: matches_20dd_def)
      with d Nil have "take 4 (x # s) = y'" by simp
      with False m' show ?thesis by simp
    next
      case (Cons x' a'')
      with d have "s = a'' @ y' @ b'" by simp
      from least[OF this m'] Cons show ?thesis by simp
    qed
    moreover have "x # s = (x # a) @ y @ b"
      using s by simp
    ultimately show ?thesis
      using m by blast
  qed
qed

text \<open>The file name with two years, and one with a year of the last century.\<close>

lemma two_years_rules:
  "extract_year_from_filename default_pattern_config ''2019_vs_2023.jpg'' = Some ''2019''"
  "\<not> should_skip default_pattern_config ''/2019_vs_2023.jpg'' ''2019_vs_2023.jpg''"
  "photos_enabled default_pattern_config"
  "photos_year_pattern default_pattern_config = None"
  "folders_get default_pattern_config ''photos'' ''Photos Archive'' = ''Photos Archive''"
  by (simp_all add: eval_defs default_pattern_config_def example_config_def)

lemma oldphoto_rules:
  "re_search_year ''oldphoto_1999.jpg'' = None"
  "\<not> should_skip default_pattern_config ''/oldphoto_1999.jpg'' ''oldphoto_1999.jpg''"
  by (simp_all add: eval_defs default_pattern_config_def example_config_def)

lemma two_years_photos_disabled:
  "extract_year_from_filename photos_disabled_config ''2019_vs_2023.jpg'' = None"
  "\<not> should_skip photos_disabled_config ''/2019_vs_2023.jpg'' ''2019_vs_2023.jpg''"
  "photos_year_pattern photos_disabled_config = None"
  "organize_file photos_disabled_config accepting
     (FileMetadata ''2019_vs_2023.jpg'' ''/2019_vs_2023.jpg'') init_organizer = init_organizer"
  by (simp_all add: eval_defs photos_disabled_config_def default_pattern_config_def
      example_config_def)

lemma two_years_route:
  "route default_pattern_config (FileMetadata ''2019_vs_2023.jpg'' ''/2019_vs_2023.jpg'') =
     MoveTo ''/Photos Archive/2019/2019_vs_2023.jpg''"
  by (simp add: route_def eval_defs match_defs default_pattern_config_def example_config_def)

text \<open>
  Claim C6, as stated, fails. The claim holds of every configuration with the default
  pattern, but \<open>_extract_year_from_filename\<close> first tests \<open>rules.photos.enabled\<close>: with the
  rule switched off, \<open>2019_vs_2023.jpg\<close> contains \<open>2019\<close>, is not skipped, and yet no year is
  extracted and the file stays where it is. With the rule on, the destination is the
  absolute path that starts with a slash, not the folder name itself.
\<close>

theorem first_year_counterexample:
  "''2019_vs_2023.jpg'' = [] @ ''2019'' @ ''_vs_2023.jpg'' \<and> matches_20dd ''2019'' \<and>
   photos_year_pattern photos_disabled_config = None \<and>
   \<not> should_skip photos_disabled_config ''/2019_vs_2023.jpg'' ''2019_vs_2023.jpg'' \<and>
   extract_year_from_filename photos_disabled_config ''2019_vs_2023.jpg'' = None \<and>
   organize_file photos_disabled_config accepting
     (FileMetadata ''2019_vs_2023.jpg'' ''/2019_vs_2023.jpg'') init_organizer = init_organizer \<and>
   decision init_organizer (organize_file default_pattern_config accepting
     (FileMetadata ''2019_vs_2023.jpg'' ''/2019_vs_2023.jpg'') init_organizer) \<noteq>
     MoveTo ''Photos Archive/2019/2019_vs_2023.jpg''"
  by (simp add: two_years_photos_disabled organize_file_decision two_years_route)
     (simp add: matches_20dd_def is_digit_def)

text \<open>
  Claim C6, amended. When the photo rule is enabled and the year pattern is the default
  \<open>20\d{2}\<close> (absent from the configuration, or configured as such), then for every file
  name that contains a substring \<open>20xx\<close> with two digits \<open>xx\<close> and is not skipped, year
  extraction returns such a substring, no match starts further left, and the first move
  attempted is to \<open>/{photos_folder}/{year}/{name}\<close>, where \<open>photos_folder\<close> is the configured
  folder or \<open>Photos Archive\<close>. A file name without such a substring yields no year and no
  photo match.
\<close>

theorem first_year_routes_to_photos:
  assumes en: "photos_enabled cfg"
    and pat: "photos_year_pattern cfg = None \<or> photos_year_pattern cfg = Some re_search_year"
    and ns: "\<not> should_skip cfg (path_display md) (name md)"
  shows
    "((\<exists>a y b. name md = a @ y @ b \<and> matches_20dd y) \<longrightarrow>
        (\<exists>a y b. extract_year_from_filename cfg (name md) = Some y \<and>
           name md = a @ y @ b \<and> matches_20dd y \<and>
           (\<forall>a' y' b'. name md = a' @ y' @ b' \<and> matches_20dd y' \<longrightarrow> length a \<le> length a') \<and>
           decision s (organize_file cfg bk md s) =
             MoveTo (''/'' @ folders_get cfg ''photos'' ''Photos Archive'' @ ''/'' @ y @ ''/'' @ name md))) \<and>
     (\<not> (\<exists>a y b. name md = a @ y @ b \<and> matches_20dd y) \<longrightarrow>
        extract_year_from_filename cfg (name md) = None \<and> \<not> photo_match cfg (name md))"
proof -
  have ex: "extract_year_from_filename cfg (name md) = re_search_year (name md)"
    using en pat by (auto simp: extract_year_from_filename_def)
  show ?thesis
  proof (cases "re_search_year (name md)")
    case None
    have "\<not> matches_20dd y" if "name md = a @ y @ b" for a y b
      using None that by (rule re_search_year_None)
    then have no: "\<not> (\<exists>a y b. name md = a @ y @ b \<and> matches_20dd y)"
      by blast
    have "extract_year_from_filename cfg (name md) = None \<and> \<not> photo_match cfg (name md)"
      using None ex by (simp add: photo_match_def)
    with no show ?thesis
      by simp
  next
    case (Some y)
    from re_search_year_Some[OF Some] obtain a b where
      d: "name md = a @ y @ b" and m: "matches_20dd y"
      and least: "\<forall>a' y' b'. name md = a' @ y' @ b' \<and> matches_20dd y' \<longrightarrow> length a \<le> length a'"
      by blast
    from m have "y \<noteq> []"
      by (auto simp: matches_20dd_def)
    then have "route cfg md = MoveTo (photo_path cfg y (name md))"
      using ns ex Some by (simp add: route_def photo_match_def year_of_def)
    then have dec: "decision s (organize_file cfg bk md s) =
        MoveTo (''/'' @ folders_get cfg ''photos'' ''Photos Archive'' @ ''/'' @ y @ ''/'' @ name md)"
      by (simp add: organize_file_decision photo_path_def)
    have e: "extract_year_from_filename cfg (name md) = Some y"
      using ex Some by simp
    have first: "\<exists>a y b. extract_year_from_filename cfg (name md) = Some y \<and>
           name md = a @ y @ b \<and> matches_20dd y \<and>
           (\<forall>a' y' b'. name md = a' @ y' @ b' \<and> matches_20dd y' \<longrightarrow> length a \<le> length a') \<and>
           decision s (organize_file cfg bk md s) =
             MoveTo (''/'' @ folders_get cfg ''photos'' ''Photos Archive'' @ ''/'' @ y @ ''/'' @ name md)"
      using e d m least dec by (intro exI[of _ a] exI[of _ y] exI[of _ b] conjI)
    have yes: "\<exists>a y b. name md = a @ y @ b \<and> matches_20dd y"
      using d m by (intro exI[of _ a] exI[of _ y] exI[of _ b] conjI)
    show ?thesis
    proof (intro conjI impI)
      show "\<exists>a y b. extract_year_from_filename cfg (name md) = Some y \<and>
           name md = a @ y @ b \<and> matches_20dd y \<and>
           (\<forall>a' y' b'. name md = a' @ y' @ b' \<and> matches_20dd y' \<longrightarrow> length a \<le> length a') \<and>
           decision s (organize_file cfg bk md s) =
             MoveTo (''/'' @ folders_get cfg ''photos'' ''Photos Archive'' @ ''/'' @ y @ ''/'' @ name md)"
        by (rule first)
    next
      assume "\<not> (\<exists>a y b. name md = a @ y @ b \<and> matches_20dd y)"
      with yes show "extract_year_from_filename cfg (name md) = None" by (rule notE[rotated])
    next
      assume "\<not> (\<exists>a y b. name md = a @ y @ b \<and> matches_20dd y)"
      with yes show "\<not> photo_match cfg (name md)" by (rule notE[rotated])
    qed
  qed
qed

theorem first_year_routes_to_photos_witness:
  "photos_enabled default_pattern_config \<and>
   photos_year_pattern default_pattern_config = None \<and>
   \<not> should_skip default_pattern_config ''/2019_vs_2023.jpg'' ''2019_vs_2023.jpg'' \<and>
   ''2019_vs_2023.jpg'' = [] @ ''2019'' @ ''_vs_2023.jpg'' \<and> matches_20dd ''2019'' \<and>
   extract_year_from_filename default_pattern_config ''2019_vs_2023.jpg'' = Some ''2019'' \<and>
   decision init_organizer (organize_file default_pattern_config accepting
     (FileMetadata ''2019_vs_2023.jpg'' ''/2019_vs_2023.jpg'') init_organizer) =
     MoveTo ''/Photos Archive/2019/2019_vs_2023.jpg'' \<and>
   \<not> (\<exists>a y b. ''oldphoto_1999.jpg'' = a @ y @ b \<and> matches_20dd y) \<and>
   extract_year_from_filename default_pattern_config ''oldphoto_1999.jpg'' = None"
proof -
  have m: "matches_20dd ''2019''"
    by (simp add: matches_20dd_def is_digit_def)
  have d: "''2019_vs_2023.jpg'' = [] @ ''2019'' @ ''_vs_2023.jpg''"
    by simp
  have pat: "photos_year_pattern default_pattern_config = None \<or>
      photos_year_pattern default_pattern_config = Some re_search_year"
    using two_years_rules(4) by (rule disjI1)
  have ns: "\<not> should_skip default_pattern_config
      (path_display (FileMetadata ''2019_vs_2023.jpg'' ''/2019_vs_2023.jpg''))
      (name (FileMetadata ''2019_vs_2023.jpg'' ''/2019_vs_2023.jpg''))"
    using two_years_rules(2) by simp
  have ex: "\<exists>a y b. name (FileMetadata ''2019_vs_2023.jpg'' ''/2019_vs_2023.jpg'') = a @ y @ b \<and>
      matches_20dd y"
    using m d by (intro exI[of _ "[]"] exI[of _ "''2019''"] exI[of _ "''_vs_2023.jpg''"]) simp
  note inst = first_year_routes_to_photos[OF two_years_rules(3) pat ns,
      where bk = accepting and s = init_organizer]
  from inst ex obtain a y b where
    y: "extract_year_from_filename default_pattern_config
          (name (FileMetadata ''2019_vs_2023.jpg'' ''/2019_vs_2023.jpg'')) = Some y"
    and dec: "decision init_organizer (organize_file default_pattern_config accepting
        (FileMetadata ''2019_vs_2023.jpg'' ''/2019_vs_2023.jpg'') init_organizer) =
      MoveTo (''/'' @ folders_get default_pattern_config ''photos'' ''Photos Archive'' @ ''/'' @ y @
        ''/'' @ name (FileMetadata ''2019_vs_2023.jpg'' ''/2019_vs_2023.jpg''))"
    by blast
  from y have "y = ''2019''"
    by (simp add: two_years_rules(1))
  with dec have dec': "decision init_organizer (organize_file default_pattern_config accepting
     (FileMetadata ''2019_vs_2023.jpg'' ''/2019_vs_2023.jpg'') init_organizer) =
     MoveTo ''/Photos Archive/2019/2019_vs_2023.jpg''"
    by (simp add: two_years_rules(5))
  have "\<not> matches_20dd y" if "''oldphoto_1999.jpg'' = a @ y @ b" for a y b
    using oldphoto_rules(1) that by (rule re_search_year_None)
  then have none: "\<not> (\<exists>a y b. ''oldphoto_1999.jpg'' = a @ y @ b \<and> matches_20dd y)"
    by blast
  have ns2: "\<not> should_skip default_pattern_config
      (path_display (FileMetadata ''oldphoto_1999.jpg'' ''/oldphoto_1999.jpg''))
      (name (FileMetadata ''oldphoto_1999.jpg'' ''/oldphoto_1999.jpg''))"
    using oldphoto_rules(2) by simp
  have none2: "\<not> (\<exists>a y b. name (FileMetadata ''oldphoto_1999.jpg'' ''/oldphoto_1999.jpg'') = a @ y @ b \<and>
      matches_20dd y)"
    using none by simp
  from first_year_routes_to_photos[OF two_years_rules(3) pat ns2,
      where bk = accepting and s = init_organizer] none2
  have "extract_year_from_filename default_pattern_config
      (name (FileMetadata ''oldphoto_1999.jpg'' ''/oldphoto_1999.jpg'')) = None"
    by blast
  then have old: "extract_year_from_filename default_pattern_config ''oldphoto_1999.jpg'' = None"
    by simp
  show ?thesis
    using two_years_rules(3,4,2) d m two_years_rules(1) dec' none old
    by (intro conjI)
qed


section \<open>Extensions and the document rule\<close>

lemma rfind_absent: "c \<notin> set s \<Longrightarrow> rfind s c = - 1"
  by (simp add: rfind_def)

lemma rfind_last: "c \<notin> set ext \<Longrightarrow> rfind (stem @ c # ext) c = int (length stem)"
proof -
  assume "c \<notin> set ext"
  then have "takeWhile (\<lambda>x. x \<noteq> c) (rev ext @ c # rev stem) = rev ext"
    by (auto simp: takeWhile_tail takeWhile_eq_all_conv)
  then show ?thesis
    by (simp add: rfind_def)
qed

lemma splitext_no_dot: "CHR ''.'' \<notin> set n \<Longrightarrow> splitext n = (n, [])"
proof -
  assume a: "CHR ''.'' \<notin> set n"
  have "- 1 \<le> rfind n CHR ''/''"
    using length_takeWhile_le[of "\<lambda>x. x \<noteq> CHR ''/''" "rev n"] by (simp add: rfind_def)
  with a show ?thesis
    by (simp add: splitext_def rfind_absent Let_def)
qed

lemma splitext_last_dot:
  assumes "CHR ''/'' \<notin> set (stem @ CHR ''.'' # ext)" and "CHR ''.'' \<notin> set ext"
  shows "splitext (stem @ CHR ''.'' # ext) =
     (if list_ex (\<lambda>x. x \<noteq> CHR ''.'') stem then (stem, CHR ''.'' # ext)
      else (stem @ CHR ''.'' # ext, []))"
  using assms by (simp add: splitext_def rfind_absent rfind_last Let_def)

lemma last_dot_suffix_split:
  "CHR ''.'' \<notin> set ext \<Longrightarrow> last_dot_suffix (stem @ CHR ''.'' # ext) = CHR ''.'' # ext"
  by (simp add: last_dot_suffix_def rfind_last)

lemma splitext_ext:
  assumes "CHR ''/'' \<notin> set n"
  shows "snd (splitext n) =
     (if list_ex (\<lambda>x. x \<noteq> CHR ''.'') (take (nat (rfind n CHR ''.'')) n)
      then last_dot_suffix n else [])"
proof (cases "CHR ''.'' \<in> set n")
  case False
  then show ?thesis
    by (simp add: splitext_no_dot rfind_absent)
next
  case True
  then obtain stem ext where n: "n = stem @ CHR ''.'' # ext" and e: "CHR ''.'' \<notin> set ext"
    by (meson split_list_last)
  from assms have "CHR ''/'' \<notin> set (stem @ CHR ''.'' # ext)"
    by (simp add: n)
  from splitext_last_dot[OF this e] show ?thesis
    unfolding n by (simp add: rfind_last[OF e] last_dot_suffix_split[OF e])
qed

lemma lower_char_dot: "lower_char c = CHR ''.'' \<longleftrightarrow> c = CHR ''.''"
proof
  assume l: "lower_char c = CHR ''.''"
  show "c = CHR ''.''"
  proof (cases "map_of (zip uppercase lowercase) c")
    case None
    with l show ?thesis by (simp add: lower_char_def)
  next
    case (Some x)
    then have "x \<in> set lowercase"
      by (meson in_set_zipE map_of_SomeD)
    moreover from Some l have "x = CHR ''.''"
      by (simp add: lower_char_def)
    ultimately show ?thesis
      by (simp add: lowercase_def)
  qed
next
  assume "c = CHR ''.''"
  then show "lower_char c = CHR ''.''"
    by (simp add: lower_char_def uppercase_def lowercase_def)
qed

lemma lower_dot: "CHR ''.'' \<in> set (lower n) \<longleftrightarrow> CHR ''.'' \<in> set n"
proof (induction n)
  case Nil
  then show ?case by (simp add: lower_def)
next
  case (Cons c n)
  have "CHR ''.'' = lower_char c \<longleftrightarrow> CHR ''.'' = c"
    using lower_char_dot[of c] by auto
  with Cons show ?case
    by (simp add: lower_def)
qed

text \<open>A file named \<open>.pdf\<close>: its only dot is a leading dot.\<close>

lemma pdf_dotfile_rules:
  "last_dot_suffix (lower ''.pdf'') = ''.pdf''"
  "''.pdf'' \<in> set (documents_extensions example_config)"
  "documents_enabled example_config"
  "\<not> should_skip example_config ''/.pdf'' ''.pdf''"
  "extract_year_from_filename example_config ''.pdf'' = None"
  "snd (splitext (lower ''.pdf'')) = []"
  "\<not> is_document example_config ''.pdf''"
  "organize_file example_config accepting (FileMetadata ''.pdf'' ''/.pdf'') init_organizer =
     init_organizer"
  by (simp_all add: eval_defs last_dot_suffix_def example_config_def)

text \<open>
  Claim C7, as stated, fails. The code takes the extension from \<open>os.path.splitext\<close>, which
  counts leading dots as part of the root. For the name \<open>.pdf\<close> the suffix from the last dot
  is \<open>.pdf\<close>, a configured document extension, and neither a skip rule nor the year pattern
  matches; but \<open>splitext\<close> gives an empty extension, the document rule does not match, and the
  file is left in place.
\<close>

theorem last_dot_suffix_counterexample:
  "last_dot_suffix (lower ''.pdf'') = ''.pdf'' \<and>
   ''.pdf'' \<in> set (documents_extensions example_config) \<and>
   documents_enabled example_config \<and>
   \<not> should_skip example_config ''/.pdf'' ''.pdf'' \<and>
   extract_year_from_filename example_config ''.pdf'' = None \<and>
   \<not> is_document example_config ''.pdf'' \<and>
   organize_file example_config accepting (FileMetadata ''.pdf'' ''/.pdf'') init_organizer =
     init_organizer"
  using pdf_dotfile_rules by (intro conjI)

text \<open>
  Claim C7, amended. Document matching is by the lower-cased extension that
  \<open>os.path.splitext\<close> computes: the suffix from the last dot of the name when some character
  other than a dot stands before that dot, and the empty string otherwise (no dot, or only
  leading dots). When the document rule is enabled, every file whose extension so computed
  is in the configured set, and which matches no skip rule and no year rule, has its first
  move attempted to the documents folder. Names that agree up to letter case are classified
  alike. A name without a dot has the empty extension and matches no document rule unless
  the configured set contains the empty string.
\<close>

theorem document_extension_rule:
  "(documents_enabled cfg \<and> \<not> should_skip cfg (path_display md) (name md) \<and>
    \<not> photo_match cfg (name md) \<and>
    snd (splitext (lower (name md))) \<in> set (documents_extensions cfg) \<longrightarrow>
      decision s (organize_file cfg bk md s) = MoveTo (document_path cfg (name md))) \<and>
   (lower n1 = lower n2 \<longrightarrow> is_document cfg n1 = is_document cfg n2) \<and>
   (CHR ''.'' \<notin> set n \<longrightarrow>
      snd (splitext (lower n)) = [] \<and>
      ([] \<notin> set (documents_extensions cfg) \<longrightarrow> \<not> is_document cfg n)) \<and>
   (CHR ''/'' \<notin> set n \<longrightarrow>
      snd (splitext n) =
        (if list_ex (\<lambda>x. x \<noteq> CHR ''.'') (take (nat (rfind n CHR ''.'')) n)
         then last_dot_suffix n else []))"
proof (intro conjI impI)
  assume a: "documents_enabled cfg \<and> \<not> should_skip cfg (path_display md) (name md) \<and>
    \<not> photo_match cfg (name md) \<and>
    snd (splitext (lower (name md))) \<in> set (documents_extensions cfg)"
  then have "is_document cfg (name md)"
    by (simp add: is_document_def)
  with a have "route cfg md = MoveTo (document_path cfg (name md))"
    by (simp add: route_def)
  then show "decision s (organize_file cfg bk md s) = MoveTo (document_path cfg (name md))"
    by (simp add: organize_file_decision)
next
  assume "lower n1 = lower n2"
  then show "is_document cfg n1 = is_document cfg n2"
    by (simp add: is_document_def)
next
  assume "CHR ''.'' \<notin> set n"
  then have "CHR ''.'' \<notin> set (lower n)"
    by (simp add: lower_dot)
  then show "snd (splitext (lower n)) = []"
    by (simp add: splitext_no_dot)
next
  assume "CHR ''.'' \<notin> set n" and "[] \<notin> set (documents_extensions cfg)"
  moreover from this(1) have "CHR ''.'' \<notin> set (lower n)"
    by (simp add: lower_dot)
  ultimately show "\<not> is_document cfg n"
    by (simp add: is_document_def splitext_no_dot)
next
  assume "CHR ''/'' \<notin> set n"
  then show "snd (splitext n) =
        (if list_ex (\<lambda>x. x \<noteq> CHR ''.'') (take (nat (rfind n CHR ''.'')) n)
         then last_dot_suffix n else [])"
    by (rule splitext_ext)
qed

text \<open>
  \<open>FILE.PDF\<close> goes to documents as \<open>file.pdf\<close> does, \<open>README\<close> is no document, and the
  extension of \<open>archive.tar.gz\<close> is \<open>.gz\<close>.
\<close>

lemma file_pdf_rules:
  "documents_enabled example_config"
  "\<not> should_skip example_config ''/FILE.PDF'' ''FILE.PDF''"
  "\<not> photo_match example_config ''FILE.PDF''"
  "snd (splitext (lower ''FILE.PDF'')) \<in> set (documents_extensions example_config)"
  "lower ''FILE.PDF'' = lower ''file.pdf''"
  "document_path example_config ''FILE.PDF'' = ''/Documents & Files/FILE.PDF''"
  "is_document example_config ''file.pdf''"
  "CHR ''.'' \<notin> set ''README''"
  "[] \<notin> set (documents_extensions example_config)"
  "CHR ''/'' \<notin> set ''archive.tar.gz''"
  "list_ex (\<lambda>x. x \<noteq> CHR ''.'') (take (nat (rfind ''archive.tar.gz'' CHR ''.'')) ''archive.tar.gz'')"
  "last_dot_suffix ''archive.tar.gz'' = ''.gz''"
  by (simp_all add: eval_defs match_defs last_dot_suffix_def example_config_def)

theorem document_extension_rule_witness:
  "decision init_organizer (organize_file example_config accepting
      (FileMetadata ''FILE.PDF'' ''/FILE.PDF'') init_organizer) =
     MoveTo ''/Documents & Files/FILE.PDF'' \<and>
   lower ''FILE.PDF'' = lower ''file.pdf'' \<and>
   is_document example_config ''FILE.PDF'' \<and>
   CHR ''.'' \<notin> set ''README'' \<and> \<not> is_document example_config ''README'' \<and>
   CHR ''/'' \<notin> set ''archive.tar.gz'' \<and> snd (splitext ''archive.tar.gz'') = ''.gz''"
proof -
  note inst = document_extension_rule[where cfg = example_config and bk = accepting
      and s = init_organizer]
  have pre: "documents_enabled example_config \<and>
    \<not> should_skip example_config (path_display (FileMetadata ''FILE.PDF'' ''/FILE.PDF''))
      (name (FileMetadata ''FILE.PDF'' ''/FILE.PDF'')) \<and>
    \<not> photo_match example_config (name (FileMetadata ''FILE.PDF'' ''/FILE.PDF'')) \<and>
    snd (splitext (lower (name (FileMetadata ''FILE.PDF'' ''/FILE.PDF''))))
      \<in> set (documents_extensions example_config)"
    using file_pdf_rules(1-4) by simp
  from inst[where md = "FileMetadata ''FILE.PDF'' ''/FILE.PDF''"] pre
  have "decision init_organizer (organize_file example_config accepting
      (FileMetadata ''FILE.PDF'' ''/FILE.PDF'') init_organizer) =
     MoveTo (document_path example_config (name (FileMetadata ''FILE.PDF'' ''/FILE.PDF'')))"
    by blast
  then have a: "decision init_organizer (organize_file example_config accepting
      (FileMetadata ''FILE.PDF'' ''/FILE.PDF'') init_organizer) =
     MoveTo ''/Documents & Files/FILE.PDF''"
    by (simp add: file_pdf_rules(6))
  from inst[where ?n1.0 = "''FILE.PDF''" and ?n2.0 = "''file.pdf''"] file_pdf_rules(5)
  have "is_document example_config ''FILE.PDF'' = is_document example_config ''file.pdf''"
    by blast
  then have b: "is_document example_config ''FILE.PDF''"
    by (simp add: file_pdf_rules(7))
  from inst[where n = "''README''"] file_pdf_rules(8,9)
  have c: "\<not> is_document example_config ''README''"
    by blast
  from inst[where n = "''archive.tar.gz''"] file_pdf_rules(10)
  have "snd (splitext ''archive.tar.gz'') =
        (if list_ex (\<lambda>x. x \<noteq> CHR ''.'') (take (nat (rfind ''archive.tar.gz'' CHR ''.'')) ''archive.tar.gz'')
         then last_dot_suffix ''archive.tar.gz'' else [])"
    by blast
  then have d: "snd (splitext ''archive.tar.gz'') = ''.gz''"
    by (simp only: file_pdf_rules(11,12) if_True)
  show ?thesis
    using a file_pdf_rules(5) b file_pdf_rules(8) c file_pdf_rules(10) d by (intro conjI)
qed


section \<open>What determines the outcome for an entry\<close>

lemma ensure_folder_exists_calls: "prefix (calls s) (calls (ensure_folder_exists cfg bk p s))"
  by (simp add: ensure_folder_exists_def dbx_def logger_def Let_def)

lemma move_file_calls_prefix: "prefix (calls s) (calls (snd (move_file cfg bk f t s)))"
  by (simp add: move_file_calls)

lemma organize_photo_calls: "prefix (calls s) (calls (snd (organize_photo cfg bk p n (m, s))))"
proof -
  have "prefix (calls s) (calls (snd (move_file cfg bk f t
          (ensure_folder_exists cfg bk b (ensure_folder_exists cfg bk a s)))))" for f t a b
    by (meson ensure_folder_exists_calls move_file_calls_prefix prefix_order.trans)
  then show ?thesis
    by (auto simp: organize_photo_def Let_def split_def split: option.splits)
qed

lemma organize_document_calls: "prefix (calls s) (calls (snd (organize_document cfg bk p n (m, s))))"
proof -
  have "prefix (calls s) (calls (snd (move_file cfg bk f t (ensure_folder_exists cfg bk a s))))"
    for f t a
    by (meson ensure_folder_exists_calls move_file_calls_prefix prefix_order.trans)
  then show ?thesis
    by (auto simp: organize_document_def Let_def split_def)
qed

lemma organize_temp_calls: "prefix (calls s) (calls (snd (organize_temp cfg bk p n (m, s))))"
proof -
  have "prefix (calls s) (calls (snd (move_file cfg bk f t (ensure_folder_exists cfg bk a s))))"
    for f t a
    by (meson ensure_folder_exists_calls move_file_calls_prefix prefix_order.trans)
  then show ?thesis
    by (auto simp: organize_temp_def Let_def split_def)
qed

lemma organize_file_extends:
  "prefix (calls s) (calls (organize_file cfg bk md s)) \<and>
   prefix (log s) (log (organize_file cfg bk md s))"
proof (cases "should_skip cfg (path_display md) (name md)")
  case True
  then show ?thesis
    by (simp add: organize_file_skipped logger_fields)
next
  case False
  define p n where "p = path_display md" and "n = name md"
  obtain m1 s1 where r1: "organize_photo cfg bk p n (False, s) = (m1, s1)"
    by (cases "organize_photo cfg bk p n (False, s)")
  obtain m2 s2 where r2: "organize_document cfg bk p n (m1, s1) = (m2, s2)"
    by (cases "organize_document cfg bk p n (m1, s1)")
  obtain m3 s3 where r3: "organize_temp cfg bk p n (m2, s2) = (m3, s3)"
    by (cases "organize_temp cfg bk p n (m2, s2)")
  have res: "organize_file cfg bk md s = s3"
    using False by (simp add: organize_file_def Let_def r3 r2 r1 p_def[symmetric] n_def[symmetric])
  have c1: "prefix (calls s) (calls s1)" and l1: "prefix (log s) (log s1)"
    using organize_photo_calls[of s cfg bk p n False] organize_photo_log[of s cfg bk p n False]
    by (simp_all add: r1)
  have c2: "prefix (calls s1) (calls s2)" and l2: "prefix (log s1) (log s2)"
    using organize_document_calls[of s1 cfg bk p n m1] organize_document_log[of s1 cfg bk p n m1]
    by (simp_all add: r2)
  have c3: "prefix (calls s2) (calls s3)" and l3: "prefix (log s2) (log s3)"
    using organize_temp_calls[of s2 cfg bk p n m2] organize_temp_log[of s2 cfg bk p n m2]
    by (simp_all add: r3)
  have "prefix (calls s) (calls s3)"
    using c1 c2 c3 by (meson prefix_order.trans)
  moreover have "prefix (log s) (log s3)"
    using l1 l2 l3 by (meson prefix_order.trans)
  ultimately show ?thesis
    by (simp add: res)
qed

lemma chain_determined_by_results:
  "flags_ok cfg md f1 f2 f3 \<Longrightarrow> flags_ok cfg md g1 g2 g3 \<Longrightarrow>
   map (\<lambda>a. snd (snd a)) (chain cfg md f1 f2 f3) = map (\<lambda>a. snd (snd a)) (chain cfg md g1 g2 g3) \<Longrightarrow>
   f1 = g1 \<and> f2 = g2 \<and> f3 = g3"
  by (cases f1; cases f2; cases f3; cases g1; cases g2; cases g3;
      cases "photo_match cfg (name md)"; cases "is_document cfg (name md)";
      cases "is_temp_file cfg (name md)")
     (simp_all add: chain_def flags_ok_def)


lemma organize_file_outcome:
  fixes cfg :: config and bk :: backend and md :: metadata and s :: organizer
  defines "s' \<equiv> organize_file cfg bk md s"
    and "skip \<equiv> should_skip cfg (path_display md) (name md)"
  shows "\<exists>f1 f2 f3. flags_ok cfg md f1 f2 f3 \<and>
     new_attempts s s' = (if skip then [] else chain cfg md f1 f2 f3) \<and>
     photos_moved s' = photos_moved s + (if \<not> skip \<and> f1 then 1 else 0) \<and>
     documents_moved s' = documents_moved s + (if \<not> skip \<and> f2 \<and> \<not> f1 then 1 else 0) \<and>
     temp_moved s' = temp_moved s + (if \<not> skip \<and> f3 \<and> \<not> f2 then 1 else 0) \<and>
     errors s' = errors s +
       (if skip then 0 else int (length (filter (\<lambda>a. \<not> snd (snd a)) (chain cfg md f1 f2 f3)))) \<and>
     skipped s' = skipped s + (if skip then 1 else 0) \<and>
     (moves_succeed cfg bk \<longrightarrow> skip \<or> list_all (\<lambda>a. snd (snd a)) (chain cfg md f1 f2 f3))"
proof (cases skip)
  case True
  then have sk: "should_skip cfg (path_display md) (name md)"
    by (simp add: skip_def)
  have "flags_ok cfg md False False False"
    by (simp add: flags_ok_def)
  moreover have "new_attempts s s' = []" "photos_moved s' = photos_moved s"
    "documents_moved s' = documents_moved s" "temp_moved s' = temp_moved s"
    "errors s' = errors s" "skipped s' = skipped s + 1"
    unfolding s'_def organize_file_skipped[OF sk]
    by (simp_all add: new_attempts_def logger_fields move_attempts_update move_attempts_logger)
  ultimately show ?thesis
    using True by (intro exI[of _ False]) simp
next
  case False
  then have ns: "\<not> should_skip cfg (path_display md) (name md)"
    by (simp add: skip_def)
  from organize_file_not_skipped[OF ns, of bk s]
  obtain f1 f2 f3 where ok: "flags_ok cfg md f1 f2 f3"
    and att: "move_attempts s' = move_attempts s @ chain cfg md f1 f2 f3"
    and ph: "photos_moved s' = photos_moved s + (if f1 then 1 else 0)"
    and doc: "documents_moved s' = documents_moved s + (if f2 \<and> \<not> f1 then 1 else 0)"
    and tmp: "temp_moved s' = temp_moved s + (if f3 \<and> \<not> f2 then 1 else 0)"
    and err: "errors s' = errors s +
        int (length (filter (\<lambda>a. \<not> snd (snd a)) (chain cfg md f1 f2 f3)))"
    and sk: "skipped s' = skipped s"
    and suc: "moves_succeed cfg bk \<longrightarrow> list_all (\<lambda>a. snd (snd a)) (chain cfg md f1 f2 f3)"
    unfolding s'_def by blast
  have "new_attempts s s' = chain cfg md f1 f2 f3"
    by (simp add: new_attempts_def att)
  with ok ph doc tmp err sk suc False show ?thesis
    by (intro exI[of _ f1] exI[of _ f2] exI[of _ f3]) simp
qed

text \<open>
  The file with a year and a document extension on three backends, and a second time on
  the backend that refused the photo move once.
\<close>

lemma report_2023_accepting:
  "organize_file example_config accepting
     (FileMetadata ''report_2023.pdf'' ''/report_2023.pdf'') init_organizer =
   \<lparr>photos_moved = 1, documents_moved = 0, temp_moved = 0, errors = 0, skipped = 0,
    calls =
      [Files_get_metadata ''/Photos Archive'',
       Files_get_metadata ''/Photos Archive/2023'',
       Files_move_v2 ''/report_2023.pdf'' ''/Photos Archive/2023/report_2023.pdf''],
    log =
      [Folder_already_exists ''/Photos Archive'',
       Folder_already_exists ''/Photos Archive/2023'',
       Moved ''/report_2023.pdf'' ''/Photos Archive/2023/report_2023.pdf'']\<rparr>"
  by (simp add: eval_defs example_config_def accepting_def)

lemma report_2023_rejected_once:
  "organize_file example_config photos_rejected_once
     (FileMetadata ''report_2023.pdf'' ''/report_2023.pdf'') init_organizer =
   \<lparr>photos_moved = 0, documents_moved = 1, temp_moved = 0, errors = 1, skipped = 0,
    calls =
      [Files_get_metadata ''/Photos Archive'',
       Files_get_metadata ''/Photos Archive/2023'',
       Files_move_v2 ''/report_2023.pdf'' ''/Photos Archive/2023/report_2023.pdf'',
       Files_get_metadata ''/Documents & Files'',
       Files_move_v2 ''/report_2023.pdf'' ''/Documents & Files/report_2023.pdf''],
    log =
      [Folder_already_exists ''/Photos Archive'',
       Folder_already_exists ''/Photos Archive/2023'',
       Error_moving_file ''/report_2023.pdf'' ''/Photos Archive/2023/report_2023.pdf'',
       Folder_already_exists ''/Documents & Files'',
       Moved ''/report_2023.pdf'' ''/Documents & Files/report_2023.pdf'']\<rparr>"
  by (simp add: eval_defs example_config_def photos_rejected_once_def)

lemma report_2023_rejected_once_again:
  "organize_file example_config photos_rejected_once
     (FileMetadata ''report_2023.pdf'' ''/report_2023.pdf'')
     (organize_file example_config photos_rejected_once
        (FileMetadata ''report_2023.pdf'' ''/report_2023.pdf'') init_organizer) =
   \<lparr>photos_moved = 1, documents_moved = 1, temp_moved = 0, errors = 1, skipped = 0,
    calls =
      [Files_get_metadata ''/Photos Archive'',
       Files_get_metadata ''/Photos Archive/2023'',
       Files_move_v2 ''/report_2023.pdf'' ''/Photos Archive/2023/report_2023.pdf'',
       Files_get_metadata ''/Documents & Files'',
       Files_move_v2 ''/report_2023.pdf'' ''/Documents & Files/report_2023.pdf'',
       Files_get_metadata ''/Photos Archive'',
       Files_get_metadata ''/Photos Archive/2023'',
       Files_move_v2 ''/report_2023.pdf'' ''/Photos Archive/2023/report_2023.pdf''],
    log =
      [Folder_already_exists ''/Photos Archive'',
       Folder_already_exists ''/Photos Archive/2023'',
       Error_moving_file ''/report_2023.pdf'' ''/Photos Archive/2023/report_2023.pdf'',
       Folder_already_exists ''/Documents & Files'',
       Moved ''/report_2023.pdf'' ''/Documents & Files/report_2023.pdf'',
       Folder_already_exists ''/Photos Archive'',
       Folder_already_exists ''/Photos Archive/2023'',
       Moved ''/report_2023.pdf'' ''/Photos Archive/2023/report_2023.pdf'']\<rparr>"
  unfolding report_2023_rejected_once
  by (simp add: eval_defs example_config_def photos_rejected_once_def)

lemma report_2023_rejected_once_from_errors:
  "organize_file example_config photos_rejected_once
     (FileMetadata ''report_2023.pdf'' ''/report_2023.pdf'') (init_organizer\<lparr>errors := 7\<rparr>) =
   \<lparr>photos_moved = 0, documents_moved = 1, temp_moved = 0, errors = 8, skipped = 0,
    calls =
      [Files_get_metadata ''/Photos Archive'',
       Files_get_metadata ''/Photos Archive/2023'',
       Files_move_v2 ''/report_2023.pdf'' ''/Photos Archive/2023/report_2023.pdf'',
       Files_get_metadata ''/Documents & Files'',
       Files_move_v2 ''/report_2023.pdf'' ''/Documents & Files/report_2023.pdf''],
    log =
      [Folder_already_exists ''/Photos Archive'',
       Folder_already_exists ''/Photos Archive/2023'',
       Error_moving_file ''/report_2023.pdf'' ''/Photos Archive/2023/report_2023.pdf'',
       Folder_already_exists ''/Documents & Files'',
       Moved ''/report_2023.pdf'' ''/Documents & Files/report_2023.pdf'']\<rparr>"
  by (simp add: eval_defs example_config_def photos_rejected_once_def)

lemma init_organizer_fields:
  "move_attempts init_organizer = []" "errors init_organizer = 0"
  "photos_moved init_organizer = 0" "documents_moved init_organizer = 0"
  "move_attempts (init_organizer\<lparr>errors := 7\<rparr>) = []"
  "errors (init_organizer\<lparr>errors := 7\<rparr>) = 7"
  "documents_moved (init_organizer\<lparr>errors := 7\<rparr>) = 0"
  by (simp_all add: init_organizer_def observe_defs)

text \<open>
  Claim C5, as stated, fails. What is done with an entry is not a function of the entry,
  the rules and the folder map alone: the answers of the backend decide it as well. With
  the same configuration, entry and organizer state, \<open>report_2023.pdf\<close> is moved to the
  photo archive on a backend that accepts the move and to the documents folder on one that
  refuses it. On a backend that refuses the photo move once, organizing the same entry a
  second time makes other attempts than the first time.
\<close>

theorem routing_backend_counterexample:
  "stats (organize_file example_config accepting
      (FileMetadata ''report_2023.pdf'' ''/report_2023.pdf'') init_organizer) = (1, 0, 0, 0, 0) \<and>
   stats (organize_file example_config photos_rejected
      (FileMetadata ''report_2023.pdf'' ''/report_2023.pdf'') init_organizer) = (0, 1, 0, 1, 0) \<and>
   new_attempts init_organizer (organize_file example_config accepting
      (FileMetadata ''report_2023.pdf'' ''/report_2023.pdf'') init_organizer) =
     [(''/report_2023.pdf'', ''/Photos Archive/2023/report_2023.pdf'', True)] \<and>
   new_attempts init_organizer (organize_file example_config photos_rejected
      (FileMetadata ''report_2023.pdf'' ''/report_2023.pdf'') init_organizer) =
     [(''/report_2023.pdf'', ''/Photos Archive/2023/report_2023.pdf'', False),
      (''/report_2023.pdf'', ''/Documents & Files/report_2023.pdf'', True)] \<and>
   new_attempts init_organizer (organize_file example_config photos_rejected_once
      (FileMetadata ''report_2023.pdf'' ''/report_2023.pdf'') init_organizer) =
     [(''/report_2023.pdf'', ''/Photos Archive/2023/report_2023.pdf'', False),
      (''/report_2023.pdf'', ''/Documents & Files/report_2023.pdf'', True)] \<and>
   new_attempts
     (organize_file example_config photos_rejected_once
        (FileMetadata ''report_2023.pdf'' ''/report_2023.pdf'') init_organizer)
     (organize_file example_config photos_rejected_once
        (FileMetadata ''report_2023.pdf'' ''/report_2023.pdf'')
        (organize_file example_config photos_rejected_once
           (FileMetadata ''report_2023.pdf'' ''/report_2023.pdf'') init_organizer)) =
     [(''/report_2023.pdf'', ''/Photos Archive/2023/report_2023.pdf'', True)]"
  by (simp only: report_2023_rejected_once_again,
      simp only: report_2023_accepting report_2023_photos_rejected report_2023_rejected_once,
      simp add: new_attempts_def init_organizer_def observe_defs)

text \<open>
  Claim C5, amended. The first decision for an entry (skip, the destination of the first
  move attempted, or no match) is the same from any two states of the organizer and on any
  two backends. The whole outcome is determined by the configuration, the entry and the
  success or failure of the moves attempted: two evaluations whose attempts succeed and
  fail alike, and in particular any two evaluations in a dry run or on backends that accept
  every move, make the same move attempts and add the same amounts to every counter,
  whatever the states they start from. Evaluation changes the state only through what it
  does: the moved counters grow by the number of successful attempts, \<open>errors\<close> by the
  number of failed attempts, \<open>skipped\<close> by one exactly when the skip rule holds, calls and
  log are only extended, and an entry that matches no rule leaves the state as it was.
\<close>

theorem outcome_determined_by_move_results:
  assumes s': "s' = organize_file cfg bk md s" and t': "t' = organize_file cfg bk' md t"
  shows
    "decision s s' = decision t t' \<and>
     (map (\<lambda>a. snd (snd a)) (new_attempts s s') = map (\<lambda>a. snd (snd a)) (new_attempts t t') \<or>
      (moves_succeed cfg bk \<and> moves_succeed cfg bk') \<longrightarrow>
        new_attempts s s' = new_attempts t t' \<and>
        photos_moved s' - photos_moved s = photos_moved t' - photos_moved t \<and>
        documents_moved s' - documents_moved s = documents_moved t' - documents_moved t \<and>
        temp_moved s' - temp_moved s = temp_moved t' - temp_moved t \<and>
        errors s' - errors s = errors t' - errors t \<and>
        skipped s' - skipped s = skipped t' - skipped t) \<and>
     total_moved s' = total_moved s + int (length (filter (\<lambda>a. snd (snd a)) (new_attempts s s'))) \<and>
     errors s' = errors s + int (length (filter (\<lambda>a. \<not> snd (snd a)) (new_attempts s s'))) \<and>
     skipped s' = skipped s + (if should_skip cfg (path_display md) (name md) then 1 else 0) \<and>
     prefix (calls s) (calls s') \<and> prefix (log s) (log s') \<and>
     (decision s s' = NoMatch \<longrightarrow> s' = s)"
proof -
  define skip where "skip = should_skip cfg (path_display md) (name md)"
  from organize_file_outcome[of cfg md s bk]
  obtain f1 f2 f3 where f: "flags_ok cfg md f1 f2 f3"
    and fa: "new_attempts s s' = (if skip then [] else chain cfg md f1 f2 f3)"
    and fp: "photos_moved s' = photos_moved s + (if \<not> skip \<and> f1 then 1 else 0)"
    and fd: "documents_moved s' = documents_moved s + (if \<not> skip \<and> f2 \<and> \<not> f1 then 1 else 0)"
    and ft: "temp_moved s' = temp_moved s + (if \<not> skip \<and> f3 \<and> \<not> f2 then 1 else 0)"
    and fe: "errors s' = errors s +
       (if skip then 0 else int (length (filter (\<lambda>a. \<not> snd (snd a)) (chain cfg md f1 f2 f3))))"
    and fs: "skipped s' = skipped s + (if skip then 1 else 0)"
    and fm: "moves_succeed cfg bk \<longrightarrow> skip \<or> list_all (\<lambda>a. snd (snd a)) (chain cfg md f1 f2 f3)"
    unfolding s' skip_def by blast
  from organize_file_outcome[of cfg md t bk']
  obtain g1 g2 g3 where g: "flags_ok cfg md g1 g2 g3"
    and ga: "new_attempts t t' = (if skip then [] else chain cfg md g1 g2 g3)"
    and gp: "photos_moved t' = photos_moved t + (if \<not> skip \<and> g1 then 1 else 0)"
    and gd: "documents_moved t' = documents_moved t + (if \<not> skip \<and> g2 \<and> \<not> g1 then 1 else 0)"
    and gt: "temp_moved t' = temp_moved t + (if \<not> skip \<and> g3 \<and> \<not> g2 then 1 else 0)"
    and ge: "errors t' = errors t +
       (if skip then 0 else int (length (filter (\<lambda>a. \<not> snd (snd a)) (chain cfg md g1 g2 g3))))"
    and gs: "skipped t' = skipped t + (if skip then 1 else 0)"
    and gm: "moves_succeed cfg bk' \<longrightarrow> skip \<or> list_all (\<lambda>a. snd (snd a)) (chain cfg md g1 g2 g3)"
    unfolding t' skip_def by blast
  have dec: "decision s s' = decision t t'"
    unfolding s' t' by (simp add: organize_file_decision)
  have same: "new_attempts s s' = new_attempts t t' \<and>
        photos_moved s' - photos_moved s = photos_moved t' - photos_moved t \<and>
        documents_moved s' - documents_moved s = documents_moved t' - documents_moved t \<and>
        temp_moved s' - temp_moved s = temp_moved t' - temp_moved t \<and>
        errors s' - errors s = errors t' - errors t \<and>
        skipped s' - skipped s = skipped t' - skipped t"
    if "skip \<or> (f1 = g1 \<and> f2 = g2 \<and> f3 = g3)"
    using that by (auto simp: fa fp fd ft fe fs ga gp gd gt ge gs)
  have eq1: "skip \<or> (f1 = g1 \<and> f2 = g2 \<and> f3 = g3)"
    if "map (\<lambda>a. snd (snd a)) (new_attempts s s') = map (\<lambda>a. snd (snd a)) (new_attempts t t')"
  proof (cases skip)
    case True
    then show ?thesis by simp
  next
    case False
    with that have "map (\<lambda>a. snd (snd a)) (chain cfg md f1 f2 f3) =
        map (\<lambda>a. snd (snd a)) (chain cfg md g1 g2 g3)"
      by (simp add: fa ga)
    from chain_determined_by_results[OF f g this] show ?thesis
      by simp
  qed
  have eq2: "skip \<or> (f1 = g1 \<and> f2 = g2 \<and> f3 = g3)"
    if "moves_succeed cfg bk \<and> moves_succeed cfg bk'"
  proof (cases skip)
    case True
    then show ?thesis by simp
  next
    case False
    with that fm gm have "list_all (\<lambda>a. snd (snd a)) (chain cfg md f1 f2 f3)"
      "list_all (\<lambda>a. snd (snd a)) (chain cfg md g1 g2 g3)"
      by simp_all
    from chain_flags_when_all_succeed[OF f this(1)] chain_flags_when_all_succeed[OF g this(2)]
    show ?thesis
      by simp
  qed
  have total: "total_moved s' =
      total_moved s + int (length (filter (\<lambda>a. snd (snd a)) (new_attempts s s')))"
  proof (cases skip)
    case True
    then show ?thesis
      by (simp add: total_moved_def fa fp fd ft)
  next
    case False
    then have "int (length (filter (\<lambda>a. snd (snd a)) (new_attempts s s'))) =
        (if f1 then 1 else 0) + (if f2 \<and> \<not> f1 then 1 else 0) + (if f3 \<and> \<not> f2 then 1 else 0)"
      using chain_count_succeeded[OF f] by (simp only: fa if_False)
    with False show ?thesis
      by (simp add: total_moved_def fp fd ft)
  qed
  have err: "errors s' = errors s + int (length (filter (\<lambda>a. \<not> snd (snd a)) (new_attempts s s')))"
    by (simp add: fa fe)
  have sk: "skipped s' = skipped s + (if should_skip cfg (path_display md) (name md) then 1 else 0)"
    using fs by (simp add: skip_def)
  have ext: "prefix (calls s) (calls s')" "prefix (log s) (log s')"
    unfolding s' using organize_file_extends[of s cfg bk md] by simp_all
  have nm: "s' = s" if "decision s s' = NoMatch"
  proof -
    from that have "route cfg md = NoMatch"
      unfolding s' by (simp add: organize_file_decision)
    then have "\<not> should_skip cfg (path_display md) (name md)"
      "\<not> photo_match cfg (name md)" "\<not> is_document cfg (name md)" "\<not> is_temp_file cfg (name md)"
      by (auto simp: route_def split: if_splits)
    then show ?thesis
      unfolding s' by (rule organize_file_no_match)
  qed
  show ?thesis
    using dec same eq1 eq2 total err sk ext nm by blast
qed

text \<open>
  Two evaluations of the same entry from different states on different backends, with the
  photo move refused and the document move accepted in both: the same attempts and the
  same increments.
\<close>

theorem outcome_determined_by_move_results_witness:
  "map (\<lambda>a. snd (snd a)) (new_attempts init_organizer (organize_file example_config photos_rejected
      (FileMetadata ''report_2023.pdf'' ''/report_2023.pdf'') init_organizer)) = [False, True] \<and>
   map (\<lambda>a. snd (snd a)) (new_attempts (init_organizer\<lparr>errors := 7\<rparr>)
      (organize_file example_config photos_rejected_once
        (FileMetadata ''report_2023.pdf'' ''/report_2023.pdf'') (init_organizer\<lparr>errors := 7\<rparr>)))
     = [False, True] \<and>
   new_attempts (init_organizer\<lparr>errors := 7\<rparr>)
      (organize_file example_config photos_rejected_once
        (FileMetadata ''report_2023.pdf'' ''/report_2023.pdf'') (init_organizer\<lparr>errors := 7\<rparr>)) =
     [(''/report_2023.pdf'', ''/Photos Archive/2023/report_2023.pdf'', False),
      (''/report_2023.pdf'', ''/Documents & Files/report_2023.pdf'', True)] \<and>
   errors (organize_file example_config photos_rejected_once
        (FileMetadata ''report_2023.pdf'' ''/report_2023.pdf'') (init_organizer\<lparr>errors := 7\<rparr>)) - 7 = 1 \<and>
   documents_moved (organize_file example_config photos_rejected_once
        (FileMetadata ''report_2023.pdf'' ''/report_2023.pdf'') (init_organizer\<lparr>errors := 7\<rparr>)) - 0 = 1"
proof -
  let ?md = "FileMetadata ''report_2023.pdf'' ''/report_2023.pdf''"
  let ?s = "init_organizer"
  let ?s' = "organize_file example_config photos_rejected ?md ?s"
  let ?t = "init_organizer\<lparr>errors := 7\<rparr>"
  let ?t' = "organize_file example_config photos_rejected_once ?md ?t"
  note inst = outcome_determined_by_move_results[OF refl refl, where cfg = example_config
      and bk = photos_rejected and bk' = photos_rejected_once and md = ?md and s = ?s and t = ?t]
  have sa: "new_attempts ?s ?s' =
     [(''/report_2023.pdf'', ''/Photos Archive/2023/report_2023.pdf'', False),
      (''/report_2023.pdf'', ''/Documents & Files/report_2023.pdf'', True)]"
    by (simp only: report_2023_photos_rejected,
        simp add: new_attempts_def init_organizer_def observe_defs)
  have sd: "errors ?s' - errors ?s = 1" "documents_moved ?s' - documents_moved ?s = 1"
    by (simp_all add: report_2023_photos_rejected init_organizer_fields)
  have so: "map (\<lambda>a. snd (snd a)) (new_attempts ?s ?s') = [False, True]"
    by (simp add: sa)
  have to: "map (\<lambda>a. snd (snd a)) (new_attempts ?t ?t') = [False, True]"
    by (simp only: report_2023_rejected_once_from_errors,
        simp add: new_attempts_def init_organizer_def observe_defs)
  have hyp: "map (\<lambda>a. snd (snd a)) (new_attempts ?s ?s') = map (\<lambda>a. snd (snd a)) (new_attempts ?t ?t')"
    by (simp only: so to)
  from inst hyp have eq: "new_attempts ?s ?s' = new_attempts ?t ?t'"
    and e: "errors ?s' - errors ?s = errors ?t' - errors ?t"
    and d: "documents_moved ?s' - documents_moved ?s = documents_moved ?t' - documents_moved ?t"
    by blast+
  have ta: "new_attempts ?t ?t' =
     [(''/report_2023.pdf'', ''/Photos Archive/2023/report_2023.pdf'', False),
      (''/report_2023.pdf'', ''/Documents & Files/report_2023.pdf'', True)]"
    using eq sa by simp
  have te: "errors ?t' - 7 = 1"
    using e sd(1) by (simp add: init_organizer_fields)
  have td: "documents_moved ?t' - 0 = 1"
    using d sd(2) by (simp add: init_organizer_fields)
  show ?thesis
    using so to ta te td by (intro conjI)
qed

end
